theory Spec2Isabelle
  imports Complex_Main "HOL-Library.Multiset" "HOL-Library.Char_ord" "HOL-Library.List_Lexorder"
begin

section \<open>Text produced by the stream insertions of \<^verbatim>\<open>detectAndTrack\<close>\<close>

text \<open>
  A \<^verbatim>\<open>boost::filesystem::path\<close> is kept as the list of its elements; \<^verbatim>\<open>p / q\<close>
  appends one element, and \<^verbatim>\<open>operator<\<close> on paths compares element by element,
  which is the lexicographic order on lists of strings. The string of a sequence is one
  element, kept as it is read: it may be empty or contain separators, and the file
  system, not this model, decides which path values name the same place.
\<close>

type_synonym path = "string list"

definition newline :: char where
  "newline = CHR 0x0A"


text \<open>\<^verbatim>\<open>operator<<\<close> on an \<^verbatim>\<open>int\<close>: decimal digits, a minus sign when negative.\<close>

definition digit_char :: "nat \<Rightarrow> char" where
  "digit_char d = char_of (48 + d)"

fun show_nat :: "nat \<Rightarrow> string" where
  "show_nat n = (if n < 10 then [digit_char n] else show_nat (n div 10) @ [digit_char (n mod 10)])"

declare show_nat.simps [simp del]

definition show_int :: "int \<Rightarrow> string" where
  "show_int i = (if i < 0 then CHR ''-'' # show_nat (nat (- i)) else show_nat (nat i))"

text \<open>
  Modelled from the spec: the declarations of \<^verbatim>\<open>Tracking\<close> and \<^verbatim>\<open>BoundingBox\<close>,
  which the source file includes and does not contain. A Tracking has a label (a string,
  as in the spec's example \<^verbatim>\<open>label="car"\<close>), an integer ID and a bounding box with
  top-left x, top-left y, width and height, in image pixel coordinates: integers, as in
  the spec's example \<^verbatim>\<open>bbox=(10,20,30,40)\<close> and its rows.
\<close>

record BoundingBox =
  x1 :: int
  y1 :: int
  width :: int
  height :: int

record Tracking =
  label :: string
  ID :: int
  bb :: BoundingBox

text \<open>Lines 82 to 89: one row.\<close>

definition write_row :: "int \<Rightarrow> Tracking \<Rightarrow> string" where
  "write_row frameCount t =
     show_int frameCount @ '','' @
     label t @ '','' @
     show_int (ID t) @ '','' @
     show_int (x1 (bb t)) @ '','' @
     show_int (y1 (bb t)) @ '','' @
     show_int (width (bb t)) @ '','' @
     show_int (height (bb t)) @ '','' @
     ''1,-1,-1,-1'' @ [newline]"

text \<open>Lines 81 to 90: the inner loop appends one row per Tracking to the stream.\<close>

fun write_rows :: "int \<Rightarrow> Tracking list \<Rightarrow> string \<Rightarrow> string" where
  "write_rows frameCount [] buf = buf"
| "write_rows frameCount (t # ts) buf = write_rows frameCount ts (buf @ write_row frameCount t)"


section \<open>Double-precision arithmetic\<close>

text \<open>
  A finite \<^verbatim>\<open>double\<close> is kept as the rational number it stands for. \<open>to_double\<close>
  rounds a rational to the nearest binary64 value, ties to even: 53 significant bits,
  and multiples of \<open>2^-1074\<close> below the normal range. Overflow to an infinity is not
  modelled; no duration comes near it.
\<close>

function bit_length :: "int \<Rightarrow> int" where
  "bit_length n = (if n \<le> 0 then 0 else 1 + bit_length (n div 2))"
  by pat_completeness auto
termination
  by (relation "measure nat") auto

declare bit_length.simps [simp del]

definition pow2 :: "int \<Rightarrow> rat" where
  "pow2 e = (if 0 \<le> e then 2 ^ nat e else 1 / 2 ^ nat (- e))"

definition round_even :: "rat \<Rightarrow> int" where
  "round_even q =
     (let f = \<lfloor>q\<rfloor>; r = q - of_int f
      in if r < 1 / 2 then f else if 1 / 2 < r then f + 1 else if even f then f else f + 1)"

text \<open>The exponent \<open>k\<close> with \<open>2^k \<le> q < 2^(k+1)\<close>, for a positive \<open>q\<close>.\<close>

definition binary_exponent :: "rat \<Rightarrow> int" where
  "binary_exponent q =
     (let (n, d) = quotient_of q;
          k = bit_length n - bit_length d
      in if pow2 k \<le> q then k else k - 1)"

definition to_double :: "rat \<Rightarrow> rat" where
  "to_double q =
     (if q = 0 then 0
      else let e = max (binary_exponent \<bar>q\<bar> - 52) (- 1074)
           in sgn q * of_int (round_even (\<bar>q\<bar> / pow2 e)) * pow2 e)"

text \<open>
  The sum of two doubles: the exact sum, rounded. Adding zero leaves a double as it is.
\<close>

definition double_add :: "rat \<Rightarrow> rat \<Rightarrow> rat" where
  "double_add a b = (if a = 0 then b else if b = 0 then a else to_double (a + b))"

text \<open>
  A count of nanoseconds converted to a \<^verbatim>\<open>double\<close> count of milliseconds, as the
  converting constructor of \<^verbatim>\<open>std::chrono::duration\<close> does it: the count becomes a
  \<^verbatim>\<open>double\<close> and is divided by \<open>1000000\<close>.
\<close>

definition ms_of_ns :: "int \<Rightarrow> rat" where
  "ms_of_ns ns = to_double (to_double (of_int ns) / 1000000)"


section \<open>The environment of the harness\<close>

text \<open>
  The \<^verbatim>\<open>double\<close> a division gives: a finite value, an infinity or a NaN.
\<close>

datatype dbl = Fin rat | PInf | NInf | NaN

text \<open>What \<^verbatim>\<open>main\<close> prints on the standard output (lines 152, 155 and 162).\<close>

datatype console = Sequence string | Duration int dbl | TotalDuration int dbl

text \<open>The messages of lines 24 to 26, printed on the standard error.\<close>

datatype message = OPEN_FILE_MESSAGE path | OPEN_DIR_MESSAGE string | FILE_EXISTS_MESSAGE path

text \<open>
  How a run can stop early: \<^verbatim>\<open>exit(EXIT_FAILURE)\<close>, or the exception that
  \<^verbatim>\<open>create_directories\<close> throws when it cannot create the directory, which nothing
  catches.
\<close>

datatype failure = EXIT_FAILURE | filesystem_error

text \<open>
  The calls the program makes on the file system, in the order it makes them. Like the
  log of tracker calls below, this log is not in the program.
\<close>

datatype fs_call =
  IS_DIRECTORY path
| CREATE_DIRECTORIES path
| EXISTS path
| OPEN path
| DIRECTORY_ITERATOR path
| CLOSE path

text \<open>
  A log entry for one call of \<^verbatim>\<open>imageTracker.detectAndTrack(image)\<close> (line 75): the
  MCSORT object the ImageTracker holds, the sequence, the value of \<^verbatim>\<open>frameCount\<close>,
  the path the image was read from and the state of the tracker when the call is made. The log is not in the
  program; it records what the program does to its collaborators.
\<close>

record 't call =
  c_tracker :: nat
  c_sequence :: string
  c_frame :: int
  c_path :: path
  c_state :: 't

text \<open>
  The world the program runs in: the file system (directories, regular files with their
  contents, the entries of a directory in the order \<^verbatim>\<open>directory_iterator\<close> yields
  them), what \<^verbatim>\<open>create_directories\<close>, \<^verbatim>\<open>ofstream::open\<close> and \<^verbatim>\<open>cv::imread\<close> do,
  the \<^verbatim>\<open>high_resolution_clock\<close> in nanoseconds with the time decoding an image
  and writing the rows of a frame take, the number of MCSORT objects constructed so far,
  the logs of file-system and tracker calls and the two output streams.
\<close>

record ('img, 't) world =
  parent_path :: path
  dirs :: "path set"
  files :: "path \<rightharpoonup> string"
  entries :: "path \<Rightarrow> string list"
  creatable :: "path \<Rightarrow> bool"
  openable :: "path \<Rightarrow> bool"
  pixels :: "path \<Rightarrow> 'img"
  imread_ns :: "path \<Rightarrow> int"
  write_ns :: "path \<Rightarrow> int"
  now :: int
  trackers_made :: nat
  fs_calls :: "fs_call list"
  calls :: "'t call list"
  stdout :: "console list"
  stderr :: "message list"

text \<open>
  Modelled from the spec: \<^verbatim>\<open>ImageTracker\<close> and \<^verbatim>\<open>MCSORT\<close>, whose headers the source
  file includes and does not contain. \<^verbatim>\<open>ImageTracker::detectAndTrack\<close> calls the
  detector on the frame, then the tracker on the proposals, and returns the tracks; the
  tracker is stateful across calls. \<open>MCSORT\<close> is the state of a newly constructed
  tracker, and \<open>track_image\<close> maps the tracker's state and an image to the Trackings,
  the tracker's next state and the nanoseconds the call takes on the clock.
\<close>

record ('img, 't) ImageTracker =
  MCSORT :: 't
  track_image :: "'t \<Rightarrow> 'img \<Rightarrow> Tracking list \<times> 't \<times> int"

text \<open>Line 20.\<close>

definition dataDirPath :: "('img, 't) world \<Rightarrow> path" where
  "dataDirPath w = parent_path w @ [''data'']"

definition is_directory :: "('img, 't) world \<Rightarrow> path \<Rightarrow> bool" where
  "is_directory w p = (p \<in> dirs w)"

definition path_exists :: "('img, 't) world \<Rightarrow> path \<Rightarrow> bool" where
  "path_exists w p = (p \<in> dirs w \<or> files w p \<noteq> None)"

text \<open>\<^verbatim>\<open>create_directories\<close> makes the directory and every missing parent.\<close>

definition create_directories :: "('img, 't) world \<Rightarrow> path \<Rightarrow> ('img, 't) world" where
  "create_directories w p =
     w\<lparr>dirs := dirs w \<union> set (map (\<lambda>n. take n p) [1 ..< Suc (length p)]),
       fs_calls := fs_calls w @ [CREATE_DIRECTORIES p]\<rparr>"


section \<open>The frame loop and \<^verbatim>\<open>detectAndTrack\<close>\<close>

text \<open>
  Lines 71 to 92. The arguments after the image paths are the world, the state of the
  tracker, \<^verbatim>\<open>cumulativeDuration\<close> (a \<^verbatim>\<open>double\<close> count of milliseconds),
  \<^verbatim>\<open>frameCount\<close> and the text inserted into \<^verbatim>\<open>outputStream\<close> so far.
  \<open>tracker\<close> and \<open>sequencePath\<close> are only written to the log. \<^verbatim>\<open>frameCount\<close> is an unbounded integer here: a directory
  with \<open>2^31\<close> entries is out of reach.
\<close>

fun frames_loop ::
  "('img, 't) ImageTracker \<Rightarrow> nat \<Rightarrow> string \<Rightarrow> path list \<Rightarrow> ('img, 't) world \<Rightarrow> 't \<Rightarrow>
   rat \<Rightarrow> int \<Rightarrow> string \<Rightarrow> ('img, 't) world \<times> rat \<times> int \<times> string" where
  "frames_loop T tracker sequencePath [] w st cumulativeDuration frameCount buf =
     (w, cumulativeDuration, frameCount, buf)"
| "frames_loop T tracker sequencePath (p # ps) w st cumulativeDuration frameCount buf =
     (let image = pixels w p;
          w1 = w\<lparr>now := now w + imread_ns w p\<rparr>;
          startTime = now w1;
          (trackings, st', ns) = track_image T st image;
          w2 = w1\<lparr>now := now w1 + ns,
                  calls := calls w1 @ [\<lparr>c_tracker = tracker, c_sequence = sequencePath,
                                        c_frame = frameCount, c_path = p, c_state = st\<rparr>]\<rparr>;
          endTime = now w2;
          cumulativeDuration' = double_add cumulativeDuration (ms_of_ns (endTime - startTime));
          buf' = write_rows frameCount trackings buf;
          w3 = w2\<lparr>now := now w2 + write_ns w2 p\<rparr>
      in frames_loop T tracker sequencePath ps w3 st' cumulativeDuration' (frameCount + 1) buf')"

text \<open>
  Lines 28 to 95. The result is \<open>Inl\<close> when the process ends inside the function and
  \<open>Inr\<close> with the returned pair when it returns. Opening the stream creates the file
  empty; the rows reach it when the stream is closed. Every call on the file system is
  written to the log when it is made.
\<close>

definition detectAndTrack ::
  "('img, 't) ImageTracker \<Rightarrow> string \<Rightarrow> string \<Rightarrow> ('img, 't) world \<Rightarrow>
   (failure \<times> ('img, 't) world) + ((rat \<times> int) \<times> ('img, 't) world)" where
  "detectAndTrack T sequencePath modelType w =
     (let inputDirPath = dataDirPath w @ [sequencePath, ''images''];
          wa = w\<lparr>fs_calls := fs_calls w @ [IS_DIRECTORY inputDirPath]\<rparr> in
      if \<not> is_directory wa inputDirPath
      then Inl (EXIT_FAILURE, wa\<lparr>stderr := stderr wa @ [OPEN_DIR_MESSAGE sequencePath]\<rparr>)
      else
        let outputDirPath = dataDirPath w @ [''results'', sequencePath, modelType];
            wb = wa\<lparr>fs_calls := fs_calls wa @ [IS_DIRECTORY outputDirPath]\<rparr> in
        if \<not> is_directory wb outputDirPath \<and> \<not> creatable wb outputDirPath
        then Inl (filesystem_error, wb\<lparr>fs_calls := fs_calls wb @ [CREATE_DIRECTORIES outputDirPath]\<rparr>)
        else
          let w1 = (if \<not> is_directory wb outputDirPath then create_directories wb outputDirPath else wb);
              outputPath = outputDirPath @ [''track.txt''];
              wc = w1\<lparr>fs_calls := fs_calls w1 @ [EXISTS outputPath]\<rparr> in
          if path_exists wc outputPath
          then Inr ((0, 0), wc\<lparr>stderr := stderr wc @ [FILE_EXISTS_MESSAGE outputPath]\<rparr>)
          else
            let wd = wc\<lparr>fs_calls := fs_calls wc @ [OPEN outputPath]\<rparr> in
            if \<not> openable wd outputPath
            then Inl (EXIT_FAILURE, wd\<lparr>stderr := stderr wd @ [OPEN_FILE_MESSAGE outputPath]\<rparr>)
            else
              let w2 = wd\<lparr>files := (files wd)(outputPath \<mapsto> [])\<rparr>;
                  tracker = trackers_made w2;
                  w3 = w2\<lparr>trackers_made := Suc tracker,
                          fs_calls := fs_calls w2 @ [DIRECTORY_ITERATOR inputDirPath]\<rparr>;
                  imagePaths = sort (map (\<lambda>e. inputDirPath @ [e]) (entries w3 inputDirPath));
                  (w4, cumulativeDuration, frameCount, buf) =
                     frames_loop T tracker sequencePath imagePaths w3 (MCSORT T) 0 0 [];
                  w5 = w4\<lparr>files := (files w4)(outputPath \<mapsto> buf),
                          fs_calls := fs_calls w4 @ [CLOSE outputPath]\<rparr>
              in Inr ((cumulativeDuration, frameCount), w5))"

section \<open>The batch loop of \<^verbatim>\<open>main\<close>\<close>

text \<open>
  \<^verbatim>\<open>std::getline\<close> in a loop: the text up to each line feed, the line feed dropped,
  and a last line without line feed when it is not empty.
\<close>

fun getline_loop :: "string \<Rightarrow> string \<Rightarrow> string list" where
  "getline_loop cur [] = (if cur = [] then [] else [rev cur])"
| "getline_loop cur (c # cs) =
     (if c = newline then rev cur # getline_loop [] cs else getline_loop (c # cur) cs)"

definition getlines :: "string \<Rightarrow> string list" where
  "getlines s = getline_loop [] s"

text \<open>
  \<^verbatim>\<open>duration_cast<milliseconds>\<close> of a \<^verbatim>\<open>double\<close> count of milliseconds: the
  conversion to a 64-bit integer truncates towards zero, and gives \<open>- 2^63\<close> when
  the value is out of range, as the hardware does.
\<close>

definition duration_cast_ms :: "rat \<Rightarrow> int" where
  "duration_cast_ms d =
     (let t = (if 0 \<le> d then \<lfloor>d\<rfloor> else \<lceil>d\<rceil>)
      in if - (2 ^ 63) \<le> t \<and> t < 2 ^ 63 then t else - (2 ^ 63))"

text \<open>The product of two \<^verbatim>\<open>int\<close> values, wrapping at 32 bits as the hardware does.\<close>

definition int_mul :: "int \<Rightarrow> int \<Rightarrow> int" where
  "int_mul a b = (a * b + 2 ^ 31) mod 2 ^ 32 - 2 ^ 31"

text \<open>
  \<^verbatim>\<open>double(a) / b\<close> with \<open>b\<close> an integer count converted to \<^verbatim>\<open>double\<close>: the
  IEEE 754 division, which does not trap. A zero divisor gives a NaN for \<open>0 / 0\<close>
  and an infinity otherwise.
\<close>

definition double_div :: "int \<Rightarrow> int \<Rightarrow> dbl" where
  "double_div a b =
     (if b = 0 then (if a = 0 then NaN else if 0 < a then PInf else NInf)
      else Fin (to_double (to_double (of_int a) / to_double (of_int b))))"

definition throughput :: "int \<Rightarrow> int \<Rightarrow> dbl" where
  "throughput frameCount duration = double_div (int_mul frameCount 1000) duration"

text \<open>
  Lines 151 to 159, over the lines of the sequences file. \<open>cumulativeDuration\<close> and
  \<open>cumulativeFrameCount\<close> are the running totals.
\<close>

fun sequences_loop ::
  "('img, 't) ImageTracker \<Rightarrow> string \<Rightarrow> string list \<Rightarrow> ('img, 't) world \<Rightarrow> rat \<Rightarrow> int \<Rightarrow>
   (failure \<times> ('img, 't) world) + ((rat \<times> int) \<times> ('img, 't) world)" where
  "sequences_loop T modelType [] w cumulativeDuration cumulativeFrameCount =
     Inr ((cumulativeDuration, cumulativeFrameCount), w)"
| "sequences_loop T modelType (sequencePathString # rest) w cumulativeDuration cumulativeFrameCount =
     (let w1 = w\<lparr>stdout := stdout w @ [Sequence sequencePathString]\<rparr> in
      case detectAndTrack T sequencePathString modelType w1 of
        Inl e \<Rightarrow> Inl e
      | Inr (durationFrameCount, w2) \<Rightarrow>
          let duration = duration_cast_ms (fst durationFrameCount);
              w3 = w2\<lparr>stdout := stdout w2 @
                       [Duration duration (throughput (snd durationFrameCount) duration)]\<rparr>
          in sequences_loop T modelType rest w3
               (double_add cumulativeDuration (fst durationFrameCount))
               (cumulativeFrameCount + snd durationFrameCount))"

text \<open>
  Lines 143 to 168 of \<^verbatim>\<open>main\<close>, after the detector is built. Line 147 declares
  \<^verbatim>\<open>cumulativeDuration\<close> without an initial value, and the default constructor of
  \<^verbatim>\<open>std::chrono::duration\<close> leaves a \<^verbatim>\<open>double\<close> count as it finds it:
  \<open>indeterminate\<close> is the value the variable happens to have, taken to be a finite
  one. Opening a directory as the sequences file succeeds, and no line can be read
  from it.
\<close>

definition main ::
  "('img, 't) ImageTracker \<Rightarrow> string \<Rightarrow> string \<Rightarrow> rat \<Rightarrow> ('img, 't) world \<Rightarrow>
   (failure \<times> ('img, 't) world) + ('img, 't) world" where
  "main T modelType sequencesFileName indeterminate w =
     (let sequencesFilePath = dataDirPath w @ [''config'', sequencesFileName] in
      case (case files w sequencesFilePath of
              Some content \<Rightarrow> Some content
            | None \<Rightarrow> if is_directory w sequencesFilePath then Some [] else None) of
        None \<Rightarrow> Inl (EXIT_FAILURE, w\<lparr>stderr := stderr w @ [OPEN_FILE_MESSAGE [sequencesFileName]]\<rparr>)
      | Some content \<Rightarrow>
          (case sequences_loop T modelType (getlines content) w indeterminate 0 of
             Inl e \<Rightarrow> Inl e
           | Inr ((cumulativeDuration, cumulativeFrameCount), w1) \<Rightarrow>
               let totalDuration = duration_cast_ms cumulativeDuration in
               Inr (w1\<lparr>stdout := stdout w1 @
                      [TotalDuration totalDuration (throughput cumulativeFrameCount totalDuration)]\<rparr>)))"


section \<open>Reading the artifact back\<close>








section \<open>What the collaborators return along a sequence\<close>

text \<open>
  The calls of the tracker on the images of a sequence, each with the state the tracker
  is in when called, the Trackings it returns and the nanoseconds it takes.
\<close>

fun track_run :: "('img, 't) ImageTracker \<Rightarrow> 't \<Rightarrow> 'img list \<Rightarrow> ('t \<times> Tracking list \<times> int) list" where
  "track_run T st [] = []"
| "track_run T st (img # imgs) =
     (case track_image T st img of (trackings, st', ns) \<Rightarrow> (st, trackings, ns) # track_run T st' imgs)"

text \<open>The rows of one frame, and the groups of rows of successive frames.\<close>

definition frame_rows :: "int \<Rightarrow> Tracking list \<Rightarrow> string" where
  "frame_rows i ts = concat (map (write_row i) ts)"

fun frame_groups :: "int \<Rightarrow> Tracking list list \<Rightarrow> string list" where
  "frame_groups i [] = []"
| "frame_groups i (ts # tss) = frame_rows i ts # frame_groups (i + 1) tss"


text \<open>The log entries of successive frames.\<close>

fun frame_calls :: "nat \<Rightarrow> string \<Rightarrow> int \<Rightarrow> path list \<Rightarrow> 't list \<Rightarrow> 't call list" where
  "frame_calls k s i (p # ps) (st # sts) =
     \<lparr>c_tracker = k, c_sequence = s, c_frame = i, c_path = p, c_state = st\<rparr> # frame_calls k s (i + 1) ps sts"
| "frame_calls k s i _ _ = []"

section \<open>Names for the paths and worlds of \<^verbatim>\<open>detectAndTrack\<close>\<close>

text \<open>The paths of lines 34, 41 and 47, and the sorted vector of lines 63 to 67.\<close>

definition inputDirPath :: "('img, 't) world \<Rightarrow> string \<Rightarrow> path" where
  "inputDirPath w sequencePath = dataDirPath w @ [sequencePath, ''images'']"

definition outputDirPath :: "('img, 't) world \<Rightarrow> string \<Rightarrow> string \<Rightarrow> path" where
  "outputDirPath w sequencePath modelType = dataDirPath w @ [''results'', sequencePath, modelType]"

definition outputPath :: "('img, 't) world \<Rightarrow> string \<Rightarrow> string \<Rightarrow> path" where
  "outputPath w sequencePath modelType = outputDirPath w sequencePath modelType @ [''track.txt'']"

definition imagePaths :: "('img, 't) world \<Rightarrow> string \<Rightarrow> path list" where
  "imagePaths w sequencePath =
     sort (map (\<lambda>e. inputDirPath w sequencePath @ [e]) (entries w (inputDirPath w sequencePath)))"

text \<open>The world a call of \<^verbatim>\<open>detectAndTrack\<close> leaves, whether it returns or exits.\<close>

definition final_world ::
  "(failure \<times> ('img, 't) world) + ('a \<times> ('img, 't) world) \<Rightarrow> ('img, 't) world" where
  "final_world r = (case r of Inl (e, w) \<Rightarrow> w | Inr (x, w) \<Rightarrow> w)"

text \<open>
  The world in which the existence of the artifact is checked, when the images directory
  exists and the output directory exists or can be created; and the world in which the
  frame loop starts: the artifact is open and empty, the tracker is constructed.
\<close>

definition looked :: "('img, 't) world \<Rightarrow> string \<Rightarrow> string \<Rightarrow> ('img, 't) world" where
  "looked w s m =
     (if is_directory w (outputDirPath w s m)
      then w\<lparr>fs_calls := fs_calls w @
             [IS_DIRECTORY (inputDirPath w s), IS_DIRECTORY (outputDirPath w s m),
              EXISTS (outputPath w s m)]\<rparr>
      else w\<lparr>dirs := dirs w \<union> set (map (\<lambda>n. take n (outputDirPath w s m))
                                    [1 ..< Suc (length (outputDirPath w s m))]),
             fs_calls := fs_calls w @
             [IS_DIRECTORY (inputDirPath w s), IS_DIRECTORY (outputDirPath w s m),
              CREATE_DIRECTORIES (outputDirPath w s m), EXISTS (outputPath w s m)]\<rparr>)"

definition prepared :: "('img, 't) world \<Rightarrow> string \<Rightarrow> string \<Rightarrow> ('img, 't) world" where
  "prepared w s m =
     (looked w s m)
       \<lparr>files := (files w)(outputPath w s m \<mapsto> []),
        trackers_made := Suc (trackers_made w),
        fs_calls := fs_calls (looked w s m) @
          [OPEN (outputPath w s m), DIRECTORY_ITERATOR (inputDirPath w s)]\<rparr>"

text \<open>
  The running sum of line 78: each time converted to milliseconds, each addition
  rounded.
\<close>

definition double_sum :: "int list \<Rightarrow> rat" where
  "double_sum nss = foldl (\<lambda>a ns. double_add a (ms_of_ns ns)) 0 nss"


section \<open>Reading the console and the log\<close>

text \<open>A throughput figure that is not a number of frames per second.\<close>

definition sentinel :: "dbl \<Rightarrow> bool" where
  "sentinel x = (case x of Fin q \<Rightarrow> False | PInf \<Rightarrow> True | NInf \<Rightarrow> True | NaN \<Rightarrow> True)"

text \<open>The sequences announced on the standard output (line 152), in order.\<close>

fun sequences_printed :: "console list \<Rightarrow> string list" where
  "sequences_printed [] = []"
| "sequences_printed (Sequence l # out) = l # sequences_printed out"
| "sequences_printed (x # out) = sequences_printed out"

text \<open>
  A log in which a call made on the same MCSORT object as the call before it finds the
  tracker in the state the call before left it in.
\<close>

fun threaded :: "('img, 't) ImageTracker \<Rightarrow> (path \<Rightarrow> 'img) \<Rightarrow> 't call list \<Rightarrow> bool" where
  "threaded T px (c # c' # cs) =
     ((c_tracker c = c_tracker c' \<longrightarrow>
         c_state c' = fst (snd (track_image T (c_state c) (px (c_path c))))) \<and>
      threaded T px (c' # cs))"
| "threaded T px cs = True"

text \<open>
  What a stretch of the run, from world \<open>w\<close> to world \<open>w'\<close>, does with trackers: it
  only appends to the log; the MCSORT objects it calls are objects it constructed; calls
  on one object belong to one sequence; the call for frame 0 finds a newly constructed
  tracker; and the log of the stretch is threaded.
\<close>

definition tracker_discipline ::
  "('img, 't) ImageTracker \<Rightarrow> ('img, 't) world \<Rightarrow> ('img, 't) world \<Rightarrow> bool" where
  "tracker_discipline T w w' =
     (\<exists>L. calls w' = calls w @ L \<and> pixels w' = pixels w \<and>
        trackers_made w \<le> trackers_made w' \<and>
        (\<forall>c \<in> set L. trackers_made w \<le> c_tracker c \<and> c_tracker c < trackers_made w') \<and>
        (\<forall>c \<in> set L. \<forall>c' \<in> set L. c_tracker c = c_tracker c' \<longrightarrow> c_sequence c = c_sequence c') \<and>
        (\<forall>c \<in> set L. c_frame c = 0 \<longrightarrow> c_state c = MCSORT T) \<and>
        threaded T (pixels w) L)"

section \<open>Examples\<close>

definition car :: Tracking where
  "car = \<lparr>label = ''car'', ID = 1, bb = \<lparr>x1 = 10, y1 = 20, width = 30, height = 40\<rparr>\<rparr>"


text \<open>
  A tracker that counts its calls and reports one Tracking per frame, labelled with the
  image, in two milliseconds; a data directory with one sequence of two images.
\<close>

definition tracker0 :: "(string, nat) ImageTracker" where
  "tracker0 = \<lparr>MCSORT = 0,
     track_image = (\<lambda>st img. ([\<lparr>label = img, ID = int st,
                                 bb = \<lparr>x1 = 10, y1 = 20, width = 30, height = 40\<rparr>\<rparr>], Suc st, 2000000))\<rparr>"

definition world0 :: "(string, nat) world" where
  "world0 = \<lparr>parent_path = [''..''],
     dirs = {[''..''], [''..'', ''data''], [''..'', ''data'', ''config''],
             [''..'', ''data'', ''seq01''], [''..'', ''data'', ''seq01'', ''images'']},
     files = [[''..'', ''data'', ''config'', ''seqs.txt''] \<mapsto> ''seq01'' @ [newline]],
     entries = (\<lambda>p. if p = [''..'', ''data'', ''seq01'', ''images''] then [''b.jpg'', ''a.jpg''] else []),
     creatable = (\<lambda>p. True),
     openable = (\<lambda>p. True),
     pixels = last,
     imread_ns = (\<lambda>p. 7),
     write_ns = (\<lambda>p. 11),
     now = 0,
     trackers_made = 0,
     fs_calls = [],
     calls = [],
     stdout = [],
     stderr = []\<rparr>"

text \<open>The same, with the artifact of the sequence in place, in its directory.\<close>

definition world1 :: "(string, nat) world" where
  "world1 = world0\<lparr>
     dirs := dirs world0 \<union> {[''..'', ''data'', ''results''], [''..'', ''data'', ''results'', ''seq01''],
                            [''..'', ''data'', ''results'', ''seq01'', ''m'']},
     files := (files world0)([''..'', ''data'', ''results'', ''seq01'', ''m'', ''track.txt''] \<mapsto> ''kept'')\<rparr>"

text \<open>
  Two sequences; a batch whose first sequence has no images directory; a batch of a
  blank line and a line of one space, with images directories for both.
\<close>

definition world2 :: "(string, nat) world" where
  "world2 = world0\<lparr>
     dirs := dirs world0 \<union> {[''..'', ''data'', ''seq02''], [''..'', ''data'', ''seq02'', ''images'']},
     entries := (\<lambda>p. if p = [''..'', ''data'', ''seq01'', ''images''] then [''b.jpg'', ''a.jpg'']
                     else if p = [''..'', ''data'', ''seq02'', ''images''] then [''c.jpg''] else [])\<rparr>"

definition world3 :: "(string, nat) world" where
  "world3 = world0\<lparr>files := (files world0)([''..'', ''data'', ''config'', ''batch.txt''] \<mapsto>
     ''nodir'' @ [newline] @ ''seq01'' @ [newline])\<rparr>"

definition world4 :: "(string, nat) world" where
  "world4 = world0\<lparr>
     dirs := {[''..''], [''..'', ''data''], [''..'', ''data'', ''config''],
              [''..'', ''data'', []], [''..'', ''data'', [], ''images''],
              [''..'', ''data'', '' ''], [''..'', ''data'', '' '', ''images'']},
     files := [[''..'', ''data'', ''config'', ''blank.txt''] \<mapsto> [newline, CHR '' '', newline]],
     entries := (\<lambda>p. [])\<rparr>"

text \<open>
  A tracker that takes a tenth of a millisecond for every frame, and a sequence of ten
  images.
\<close>

definition tracker_tenth :: "(string, nat) ImageTracker" where
  "tracker_tenth = \<lparr>MCSORT = 0, track_image = (\<lambda>st img. ([], Suc st, 100000))\<rparr>"

definition world_ten :: "(string, nat) world" where
  "world_ten = world0\<lparr>
     entries := (\<lambda>p. if p = [''..'', ''data'', ''seq01'', ''images'']
                     then [''0.jpg'', ''1.jpg'', ''2.jpg'', ''3.jpg'', ''4.jpg'',
                           ''5.jpg'', ''6.jpg'', ''7.jpg'', ''8.jpg'', ''9.jpg''] else [])\<rparr>"


section \<open>Lines, columns and decimal numbers\<close>

lemma getline_loop_line:
  "newline \<notin> set l \<Longrightarrow> getline_loop cur (l @ newline # rest) = (rev cur @ l) # getline_loop [] rest"
  by (induction l arbitrary: cur) auto

lemma getlines_line: "newline \<notin> set l \<Longrightarrow> getlines (l @ newline # rest) = l # getlines rest"
  by (simp add: getlines_def getline_loop_line)















lemma write_rows_concat: "write_rows i ts buf = buf @ frame_rows i ts"
  by (induction ts arbitrary: buf) (auto simp: frame_rows_def)





section \<open>The frame loop\<close>

lemma frames_loop_same:
  "(fst (frames_loop T k s ps w st cum n buf))\<lparr>now := a, calls := b\<rparr> = w\<lparr>now := a, calls := b\<rparr>"
  by (induction ps arbitrary: w st cum n buf) (auto simp: Let_def split: prod.splits)

lemma frames_loop_pixels: "pixels (fst (frames_loop T k s ps w st cum n buf)) = pixels w"
  by (induction ps arbitrary: w st cum n buf) (auto simp: Let_def split: prod.splits)

lemma frames_loop_frameCount:
  "fst (snd (snd (frames_loop T k s ps w st cum n buf))) = n + int (length ps)"
  by (induction ps arbitrary: w st cum n buf) (auto simp: Let_def split: prod.splits)

lemma frames_loop_duration:
  "fst (snd (frames_loop T k s ps w st cum n buf)) =
     foldl (\<lambda>a ns. double_add a (ms_of_ns ns)) cum
       (map (snd \<circ> snd) (track_run T st (map (pixels w) ps)))"
  by (induction ps arbitrary: w st cum n buf) (auto simp: Let_def split: prod.splits)

lemma frames_loop_buf:
  "snd (snd (snd (frames_loop T k s ps w st cum n buf))) =
     buf @ concat (frame_groups n (map (fst \<circ> snd) (track_run T st (map (pixels w) ps))))"
  by (induction ps arbitrary: w st cum n buf) (auto simp: Let_def write_rows_concat split: prod.splits)

lemma frames_loop_calls:
  "calls (fst (frames_loop T k s ps w st cum n buf)) =
     calls w @ frame_calls k s n ps (map fst (track_run T st (map (pixels w) ps)))"
  by (induction ps arbitrary: w st cum n buf) (auto simp: Let_def split: prod.splits)

lemma frames_loop_now:
  "imread_ns (fst (frames_loop T k s ps w st cum n buf)) = imread_ns w \<and>
   write_ns (fst (frames_loop T k s ps w st cum n buf)) = write_ns w \<and>
   now (fst (frames_loop T k s ps w st cum n buf)) =
     now w + (\<Sum>p \<leftarrow> ps. imread_ns w p + write_ns w p) +
     (\<Sum>r \<leftarrow> track_run T st (map (pixels w) ps). snd (snd r))"
  by (induction ps arbitrary: w st cum n buf) (auto simp: Let_def split: prod.splits)

section \<open>The paths of \<^verbatim>\<open>detectAndTrack\<close>\<close>

lemma frames_loop_files: "files (fst (frames_loop T k s ps w st cum n buf)) = files w"
  using arg_cong [OF frames_loop_same [where a = "now w" and b = "calls w" and w = w], of files] by simp

lemma frames_loop_dirs: "dirs (fst (frames_loop T k s ps w st cum n buf)) = dirs w"
  using arg_cong [OF frames_loop_same [where a = "now w" and b = "calls w" and w = w], of dirs] by simp

lemma frames_loop_trackers_made:
  "trackers_made (fst (frames_loop T k s ps w st cum n buf)) = trackers_made w"
  using arg_cong [OF frames_loop_same [where a = "now w" and b = "calls w" and w = w], of trackers_made] by simp

lemma frames_loop_stdout: "stdout (fst (frames_loop T k s ps w st cum n buf)) = stdout w"
  using arg_cong [OF frames_loop_same [where a = "now w" and b = "calls w" and w = w], of stdout] by simp

lemma frames_loop_parent_path: "parent_path (fst (frames_loop T k s ps w st cum n buf)) = parent_path w"
  using arg_cong [OF frames_loop_same [where a = "now w" and b = "calls w" and w = w], of parent_path] by simp

lemma frames_loop_fs_calls: "fs_calls (fst (frames_loop T k s ps w st cum n buf)) = fs_calls w"
  using arg_cong [OF frames_loop_same [where a = "now w" and b = "calls w" and w = w], of fs_calls] by simp

lemma take_not_longer: "take n p \<noteq> p @ [x]"
proof
  assume "take n p = p @ [x]"
  then have "length (take n p) = length (p @ [x])" by simp
  then show False by simp
qed

lemma longer_not_take: "p @ [x] \<noteq> take n p"
  using take_not_longer [of n p x] by (rule not_sym)

lemma path_exists_create_directories:
  "path_exists (create_directories w p) (p @ [x]) = path_exists w (p @ [x])"
  by (auto simp: path_exists_def create_directories_def take_not_longer longer_not_take)

lemma path_exists_looked: "path_exists (looked w s m) (outputPath w s m) = path_exists w (outputPath w s m)"
  by (auto simp: path_exists_def looked_def outputPath_def take_not_longer longer_not_take)

lemma detectAndTrack_no_directory:
  assumes "\<not> is_directory w (inputDirPath w s)"
  shows "detectAndTrack T s m w =
     Inl (EXIT_FAILURE, w\<lparr>fs_calls := fs_calls w @ [IS_DIRECTORY (inputDirPath w s)],
                           stderr := stderr w @ [OPEN_DIR_MESSAGE s]\<rparr>)"
  using assms by (simp add: detectAndTrack_def inputDirPath_def is_directory_def Let_def)

lemma detectAndTrack_not_creatable:
  assumes "is_directory w (inputDirPath w s)"
    and "\<not> is_directory w (outputDirPath w s m)" "\<not> creatable w (outputDirPath w s m)"
  shows "detectAndTrack T s m w =
     Inl (filesystem_error,
          w\<lparr>fs_calls := fs_calls w @ [IS_DIRECTORY (inputDirPath w s),
               IS_DIRECTORY (outputDirPath w s m), CREATE_DIRECTORIES (outputDirPath w s m)]\<rparr>)"
  using assms
  by (simp add: detectAndTrack_def inputDirPath_def outputDirPath_def is_directory_def Let_def)

lemma detectAndTrack_skip:
  assumes "is_directory w (inputDirPath w s)"
    and "is_directory w (outputDirPath w s m) \<or> creatable w (outputDirPath w s m)"
    and "path_exists w (outputPath w s m)"
  shows "detectAndTrack T s m w =
     Inr ((0, 0), (looked w s m)\<lparr>stderr := stderr w @ [FILE_EXISTS_MESSAGE (outputPath w s m)]\<rparr>)"
proof -
  have "path_exists (looked w s m) (outputPath w s m)"
    using assms(3) by (simp add: path_exists_looked)
  then show ?thesis
    using assms
    by (auto simp: detectAndTrack_def inputDirPath_def outputDirPath_def outputPath_def Let_def
        create_directories_def looked_def is_directory_def path_exists_def)
qed

lemma detectAndTrack_not_openable:
  assumes "is_directory w (inputDirPath w s)"
    and "is_directory w (outputDirPath w s m) \<or> creatable w (outputDirPath w s m)"
    and "\<not> path_exists w (outputPath w s m)"
    and "\<not> openable w (outputPath w s m)"
  shows "detectAndTrack T s m w =
     Inl (EXIT_FAILURE,
          (looked w s m)\<lparr>fs_calls := fs_calls (looked w s m) @ [OPEN (outputPath w s m)],
                         stderr := stderr w @ [OPEN_FILE_MESSAGE (outputPath w s m)]\<rparr>)"
proof -
  have "\<not> path_exists (looked w s m) (outputPath w s m)"
    using assms(3) by (simp add: path_exists_looked)
  then show ?thesis
    using assms
    by (auto simp: detectAndTrack_def inputDirPath_def outputDirPath_def outputPath_def Let_def
        create_directories_def looked_def is_directory_def path_exists_def)
qed

lemma detectAndTrack_run:
  assumes "is_directory w (inputDirPath w s)"
    and "is_directory w (outputDirPath w s m) \<or> creatable w (outputDirPath w s m)"
    and "\<not> path_exists w (outputPath w s m)"
    and "openable w (outputPath w s m)"
  shows "detectAndTrack T s m w =
     (case frames_loop T (trackers_made w) s (imagePaths w s) (prepared w s m) (MCSORT T) 0 0 [] of
        (w4, cumulativeDuration, frameCount, buf) \<Rightarrow>
          Inr ((cumulativeDuration, frameCount),
               w4\<lparr>files := (files w4)(outputPath w s m \<mapsto> buf),
                   fs_calls := fs_calls w4 @ [CLOSE (outputPath w s m)]\<rparr>))"
proof -
  have "\<not> path_exists (looked w s m) (outputPath w s m)"
    using assms(3) by (simp add: path_exists_looked)
  then show ?thesis
    using assms
    by (auto simp: detectAndTrack_def inputDirPath_def outputDirPath_def outputPath_def Let_def
        create_directories_def looked_def prepared_def imagePaths_def dataDirPath_def
        is_directory_def path_exists_def split: prod.splits)
qed

lemma map_upt_Suc: "map f [0..<Suc n] = f 0 # map (\<lambda>i. f (Suc i)) [0..<n]"
  by (simp add: upt_conv_Cons map_Suc_upt [symmetric] del: upt_Suc)

lemma length_track_run: "length (track_run T st imgs) = length imgs"
  by (induction imgs arbitrary: st) (auto split: prod.splits)

lemma frame_groups_nth:
  "frame_groups n tss = map (\<lambda>i. frame_rows (n + int i) (tss ! i)) [0..<length tss]"
proof (induction tss arbitrary: n)
  case Nil
  show ?case by simp
next
  case (Cons ts tss)
  have "frame_groups (n + 1) tss =
      map (\<lambda>i. frame_rows (n + int (Suc i)) ((ts # tss) ! Suc i)) [0..<length tss]"
    by (simp add: Cons.IH add.assoc)
  then show ?case by (simp add: map_upt_Suc del: upt_Suc)
qed

lemma frame_groups_map_nth:
  "frame_groups n (map g R) = map (\<lambda>i. frame_rows (n + int i) (g (R ! i))) [0..<length R]"
  unfolding frame_groups_nth by (rule map_cong) simp_all

lemma frame_calls_path: "length sts = length ps \<Longrightarrow> map c_path (frame_calls k s n ps sts) = ps"
  by (induction k s n ps sts rule: frame_calls.induct) auto

lemma frame_calls_frame:
  "length sts = length ps \<Longrightarrow>
   map c_frame (frame_calls k s n ps sts) = map (\<lambda>i. n + int i) [0..<length ps]"
proof (induction k s n ps sts rule: frame_calls.induct)
  case (1 k s i p ps st sts)
  then have "map c_frame (frame_calls k s (i + 1) ps sts) = map (\<lambda>j. i + int (Suc j)) [0..<length ps]"
    by (simp add: add.assoc)
  then show ?case by (simp add: map_upt_Suc del: upt_Suc)
qed auto

lemma frame_calls_tracker: "c \<in> set (frame_calls k s n ps sts) \<Longrightarrow> c_tracker c = k \<and> c_sequence c = s"
  by (induction k s n ps sts rule: frame_calls.induct) auto






lemma prepared_fields:
  "pixels (prepared w s m) = pixels w" "calls (prepared w s m) = calls w"
  "now (prepared w s m) = now w" "imread_ns (prepared w s m) = imread_ns w"
  "write_ns (prepared w s m) = write_ns w" "stdout (prepared w s m) = stdout w"
  "parent_path (prepared w s m) = parent_path w"
  "trackers_made (prepared w s m) = Suc (trackers_made w)"
  "dirs (prepared w s m) = dirs (looked w s m)"
  by (simp_all add: prepared_def looked_def)

lemma detectAndTrack_looked:
  assumes "is_directory w (inputDirPath w s)"
    and "is_directory w (outputDirPath w s m) \<or> creatable w (outputDirPath w s m)"
  shows "\<exists>rest. fs_calls (final_world (detectAndTrack T s m w)) = fs_calls (looked w s m) @ rest \<and>
     dirs (final_world (detectAndTrack T s m w)) = dirs (looked w s m)"
proof (cases "path_exists w (outputPath w s m)")
  case True
  show ?thesis
    by (simp add: detectAndTrack_skip [OF assms True] final_world_def)
next
  case False
  show ?thesis
  proof (cases "openable w (outputPath w s m)")
    case no: False
    show ?thesis
      by (simp add: detectAndTrack_not_openable [OF assms False no] final_world_def)
  next
    case True
    obtain w4 d n buf where
      L: "frames_loop T (trackers_made w) s (imagePaths w s) (prepared w s m) (MCSORT T) 0 0 [] = (w4, d, n, buf)"
      using prod_cases4 by blast
    have w4: "w4 = fst (frames_loop T (trackers_made w) s (imagePaths w s) (prepared w s m) (MCSORT T) 0 0 [])"
      by (simp add: L)
    have "dirs w4 = dirs (looked w s m)"
      unfolding w4 frames_loop_dirs by (simp add: prepared_fields)
    moreover have "fs_calls w4 = fs_calls (looked w s m) @
        [OPEN (outputPath w s m), DIRECTORY_ITERATOR (inputDirPath w s)]"
      unfolding w4 frames_loop_fs_calls by (simp add: prepared_def)
    ultimately show ?thesis
      by (simp add: detectAndTrack_run [OF assms False True] L final_world_def)
  qed
qed

lemma dirs_looked:
  "\<not> is_directory w (outputDirPath w s m) \<Longrightarrow>
   dirs (looked w s m) =
     dirs w \<union> {take n (outputDirPath w s m) |n. 0 < n \<and> n \<le> length (outputDirPath w s m)}"
  by (auto simp: looked_def)

lemma detectAndTrack_returns:
  assumes "is_directory w (inputDirPath w s)"
    and "is_directory w (outputDirPath w s m) \<or> creatable w (outputDirPath w s m)"
    and "\<not> path_exists w (outputPath w s m)"
    and "openable w (outputPath w s m)"
  shows "\<exists>w'. detectAndTrack T s m w =
       Inr ((double_sum (map (snd \<circ> snd)
               (track_run T (MCSORT T) (map (pixels w) (imagePaths w s)))),
             int (length (imagePaths w s))), w')"
proof -
  let ?L = "frames_loop T (trackers_made w) s (imagePaths w s) (prepared w s m) (MCSORT T) 0 0 []"
  obtain w4 d n buf where L: "?L = (w4, d, n, buf)"
    using prod_cases4 by blast
  have "d = double_sum (map (snd \<circ> snd) (track_run T (MCSORT T) (map (pixels w) (imagePaths w s))))"
    using frames_loop_duration [of T "trackers_made w" s "imagePaths w s" "prepared w s m" "MCSORT T" 0 0 "[]"] L
    by (simp add: prepared_fields double_sum_def)
  moreover have "n = int (length (imagePaths w s))"
    using frames_loop_frameCount [of T "trackers_made w" s "imagePaths w s" "prepared w s m" "MCSORT T" 0 0 "[]"] L
    by simp
  ultimately show ?thesis
    using detectAndTrack_run [OF assms, of T] L by simp
qed

section \<open>The batch loop\<close>

lemma sequences_loop_append:
  "sequences_loop T m (pre @ rest) w cum n =
     (case sequences_loop T m pre w cum n of
        Inl e \<Rightarrow> Inl e
      | Inr ((cum', n'), w') \<Rightarrow> sequences_loop T m rest w' cum' n')"
  by (induction pre arbitrary: w cum n) (auto simp: Let_def split: sum.splits prod.splits)

lemma stdout_paths:
  "inputDirPath (w\<lparr>stdout := x\<rparr>) s = inputDirPath w s"
  "outputDirPath (w\<lparr>stdout := x\<rparr>) s m = outputDirPath w s m"
  "outputPath (w\<lparr>stdout := x\<rparr>) s m = outputPath w s m"
  "is_directory (w\<lparr>stdout := x\<rparr>) p = is_directory w p"
  "path_exists (w\<lparr>stdout := x\<rparr>) p = path_exists w p"
  by (simp_all add: inputDirPath_def outputDirPath_def outputPath_def dataDirPath_def
      is_directory_def path_exists_def)

lemma throughput_zero: "throughput 0 0 = NaN"
  by (simp add: throughput_def int_mul_def double_div_def)

lemma sentinel_throughput: "sentinel (throughput k 0)"
  by (simp add: throughput_def double_div_def sentinel_def)

lemma detectAndTrack_zero_frames:
  assumes "detectAndTrack T s m w = Inr ((d, 0), w')"
  shows "d = 0"
proof -
  have dir: "is_directory w (inputDirPath w s)"
    using assms detectAndTrack_no_directory [of w s T m] by auto
  have out: "is_directory w (outputDirPath w s m) \<or> creatable w (outputDirPath w s m)"
    using assms dir detectAndTrack_not_creatable [of w s m T] by auto
  show ?thesis
  proof (cases "path_exists w (outputPath w s m)")
    case True
    then show ?thesis using assms detectAndTrack_skip [OF dir out, of T] by simp
  next
    case False
    show ?thesis
    proof (cases "openable w (outputPath w s m)")
      case no: False
      then show ?thesis using assms detectAndTrack_not_openable [OF dir out False, of T] by simp
    next
      case True
      let ?L = "frames_loop T (trackers_made w) s (imagePaths w s) (prepared w s m) (MCSORT T) 0 0 []"
      obtain w4 d' k buf where L: "?L = (w4, d', k, buf)"
        using prod_cases4 by blast
      have "d' = d" "k = 0"
        using assms detectAndTrack_run [OF dir out False True, of T] L by simp_all
      moreover have "k = int (length (imagePaths w s))"
        using frames_loop_frameCount [of T "trackers_made w" s "imagePaths w s" "prepared w s m" "MCSORT T" 0 0 "[]"] L
        by simp
      ultimately have "imagePaths w s = []" by simp
      then show ?thesis using L \<open>d' = d\<close> by simp
    qed
  qed
qed

text \<open>What a call leaves of the world, whatever its outcome.\<close>

lemma detectAndTrack_effect:
  fixes w :: "('img, 't) world" and T :: "('img, 't) ImageTracker" and s m :: string
  defines "w' \<equiv> final_world (detectAndTrack T s m w)"
  shows "stdout w' = stdout w \<and> parent_path w' = parent_path w \<and> pixels w' = pixels w \<and>
     dirs w \<subseteq> dirs w' \<and>
     (calls w' = calls w \<and> trackers_made w' = trackers_made w \<or>
      calls w' = calls w @ frame_calls (trackers_made w) s 0 (imagePaths w s)
         (map fst (track_run T (MCSORT T) (map (pixels w) (imagePaths w s)))) \<and>
      trackers_made w' = Suc (trackers_made w))"
proof (cases "is_directory w (inputDirPath w s)")
  case False
  then show ?thesis
    unfolding w'_def by (simp add: detectAndTrack_no_directory final_world_def)
next
  case dir: True
  show ?thesis
  proof (cases "is_directory w (outputDirPath w s m) \<or> creatable w (outputDirPath w s m)")
    case False
    then show ?thesis
      unfolding w'_def using dir by (simp add: detectAndTrack_not_creatable final_world_def)
  next
    case out: True
    show ?thesis
    proof (cases "path_exists w (outputPath w s m)")
      case True
      show ?thesis
        unfolding w'_def
        by (auto simp: detectAndTrack_skip [OF dir out True] final_world_def looked_def)
    next
      case False
      show ?thesis
      proof (cases "openable w (outputPath w s m)")
        case no: False
        show ?thesis
          unfolding w'_def
          by (auto simp: detectAndTrack_not_openable [OF dir out False no] final_world_def
              looked_def)
      next
        case True
        let ?L = "frames_loop T (trackers_made w) s (imagePaths w s) (prepared w s m) (MCSORT T) 0 0 []"
        obtain w4 d n buf where L: "?L = (w4, d, n, buf)"
          using prod_cases4 by blast
        have w4: "w4 = fst ?L" by (simp add: L)
        have r: "w' = w4\<lparr>files := (files w4)(outputPath w s m \<mapsto> buf),
                         fs_calls := fs_calls w4 @ [CLOSE (outputPath w s m)]\<rparr>"
          unfolding w'_def by (simp add: detectAndTrack_run [OF dir out False True] L final_world_def)
        have "stdout w4 = stdout w" "parent_path w4 = parent_path w" "pixels w4 = pixels w"
            "trackers_made w4 = Suc (trackers_made w)"
          unfolding w4
          by (simp_all add: frames_loop_stdout frames_loop_parent_path frames_loop_pixels
              frames_loop_trackers_made prepared_fields)
        moreover have "dirs w \<subseteq> dirs w4"
          unfolding w4 frames_loop_dirs by (auto simp: prepared_def looked_def)
        moreover have "calls w4 = calls w @ frame_calls (trackers_made w) s 0 (imagePaths w s)
             (map fst (track_run T (MCSORT T) (map (pixels w) (imagePaths w s))))"
          unfolding w4 frames_loop_calls by (simp add: prepared_fields)
        ultimately show ?thesis
          unfolding r by simp
      qed
    qed
  qed
qed

lemma detectAndTrack_output_directory:
  assumes "is_directory w (inputDirPath w s)"
    and "is_directory w (outputDirPath w s m) \<or> creatable w (outputDirPath w s m)"
  shows "is_directory (final_world (detectAndTrack T s m w)) (outputDirPath w s m)"
proof -
  have d: "dirs (final_world (detectAndTrack T s m w)) = dirs (looked w s m)"
    using detectAndTrack_looked [OF assms, of T] by blast
  show ?thesis
  proof (cases "is_directory w (outputDirPath w s m)")
    case True
    then show ?thesis
      unfolding is_directory_def d by (simp add: looked_def)
  next
    case False
    have "0 < length (outputDirPath w s m)"
      by (simp add: outputDirPath_def)
    then have "outputDirPath w s m \<in>
        {take n (outputDirPath w s m) |n. 0 < n \<and> n \<le> length (outputDirPath w s m)}"
      by (intro CollectI exI [of _ "length (outputDirPath w s m)"]) simp
    then show ?thesis
      unfolding is_directory_def d dirs_looked [OF False] by simp
  qed
qed

lemma detectAndTrack_Inr:
  assumes "detectAndTrack T s m w = Inr (r, w')"
  shows "is_directory w (inputDirPath w s) \<and> is_directory w' (outputDirPath w s m)"
proof -
  have dir: "is_directory w (inputDirPath w s)"
    using assms detectAndTrack_no_directory [of w s T m] by auto
  have out: "is_directory w (outputDirPath w s m) \<or> creatable w (outputDirPath w s m)"
    using assms dir detectAndTrack_not_creatable [of w s m T] by auto
  have "is_directory (final_world (detectAndTrack T s m w)) (outputDirPath w s m)"
    using dir out by (rule detectAndTrack_output_directory)
  then show ?thesis using dir assms by (simp add: final_world_def)
qed

lemma sequences_printed_append:
  "sequences_printed (a @ b) = sequences_printed a @ sequences_printed b"
  by (induction a rule: sequences_printed.induct) auto

lemma path_cong:
  "parent_path a = parent_path b \<Longrightarrow> inputDirPath a s = inputDirPath b s"
  "parent_path a = parent_path b \<Longrightarrow> outputDirPath a s m = outputDirPath b s m"
  by (simp_all add: inputDirPath_def outputDirPath_def dataDirPath_def)

lemma sequences_loop_lines:
  assumes "sequences_loop T m ls w cum n = Inr (r, w')"
  shows "sequences_printed (stdout w') = sequences_printed (stdout w) @ ls \<and>
     parent_path w' = parent_path w \<and> dirs w \<subseteq> dirs w' \<and>
     (\<forall>l \<in> set ls. is_directory w' (inputDirPath w l) \<and> is_directory w' (outputDirPath w l m))"
  using assms
proof (induction ls arbitrary: w cum n)
  case Nil
  then show ?case by simp
next
  case (Cons l rest)
  let ?w1 = "w\<lparr>stdout := stdout w @ [Sequence l]\<rparr>"
  obtain dfc w2 where d: "detectAndTrack T l m ?w1 = Inr (dfc, w2)"
    using Cons.prems by (auto simp: Let_def split: sum.splits)
  let ?w3 = "w2\<lparr>stdout := stdout w2 @
      [Duration (duration_cast_ms (fst dfc)) (throughput (snd dfc) (duration_cast_ms (fst dfc)))]\<rparr>"
  have rest: "sequences_loop T m rest ?w3 (double_add cum (fst dfc)) (n + snd dfc) = Inr (r, w')"
    using Cons.prems d by (simp add: Let_def)
  note ih = Cons.IH [OF rest]
  have e: "stdout w2 = stdout ?w1" "parent_path w2 = parent_path ?w1" "dirs ?w1 \<subseteq> dirs w2"
    using detectAndTrack_effect [of T l m ?w1] d by (simp_all add: final_world_def)
  have p: "parent_path ?w3 = parent_path w"
    using e by simp
  have i: "is_directory ?w1 (inputDirPath ?w1 l)" "is_directory w2 (outputDirPath ?w1 l m)"
    using detectAndTrack_Inr [OF d] by simp_all
  have sub: "dirs w \<subseteq> dirs w2" "dirs w2 \<subseteq> dirs w'"
    using e ih by simp_all
  have here: "is_directory w' (inputDirPath w l)" "is_directory w' (outputDirPath w l m)"
    using i sub by (auto simp: is_directory_def stdout_paths)
  have "sequences_printed (stdout w') = sequences_printed (stdout w) @ l # rest"
    using ih e by (simp add: sequences_printed_append)
  moreover have "parent_path w' = parent_path w"
    using ih p by simp
  moreover have "dirs w \<subseteq> dirs w'"
    using sub by blast
  moreover have "\<forall>l' \<in> set rest. is_directory w' (inputDirPath w l') \<and> is_directory w' (outputDirPath w l' m)"
    using ih path_cong [OF p] by simp
  ultimately show ?case
    using here by simp
qed

section \<open>Trackers along a batch\<close>

lemma frame_calls_frame_ge: "c \<in> set (frame_calls k s n ps sts) \<Longrightarrow> n \<le> c_frame c"
  by (induction k s n ps sts rule: frame_calls.induct) auto

lemma frame_calls_first_state:
  assumes "c \<in> set (frame_calls k s n ps (map fst (track_run T st imgs)))" "c_frame c = n"
  shows "c_state c = st"
proof (cases ps)
  case Nil
  then show ?thesis using assms by simp
next
  case (Cons p ps')
  show ?thesis
  proof (cases imgs)
    case Nil
    then show ?thesis using assms Cons by simp
  next
    case (Cons img imgs')
    obtain ts st' ns where t: "track_image T st img = (ts, st', ns)"
      using prod_cases3 by blast
    let ?c0 = "\<lparr>c_tracker = k, c_sequence = s, c_frame = n, c_path = p, c_state = st\<rparr>"
    have "c = ?c0 \<or> c \<in> set (frame_calls k s (n + 1) ps' (map fst (track_run T st' imgs')))"
      using assms(1) \<open>ps = p # ps'\<close> Cons t by simp
    then show ?thesis
    proof
      assume "c = ?c0"
      then have "c_state c = c_state ?c0" by (rule arg_cong)
      then show ?thesis by simp
    next
      assume "c \<in> set (frame_calls k s (n + 1) ps' (map fst (track_run T st' imgs')))"
      then have "n + 1 \<le> c_frame c" by (rule frame_calls_frame_ge)
      then show ?thesis using assms(2) by simp
    qed
  qed
qed

lemma threaded_frame_calls:
  "threaded T px (frame_calls k s n ps (map fst (track_run T st (map px ps))))"
proof (induction ps arbitrary: st n)
  case Nil
  show ?case by simp
next
  case (Cons p ps)
  obtain ts st' ns where t: "track_image T st (px p) = (ts, st', ns)"
    using prod_cases3 by blast
  show ?case
  proof (cases ps)
    case Nil
    then show ?thesis by (simp add: t)
  next
    case (Cons p' ps')
    obtain ts' st'' ns' where t': "track_image T st' (px p') = (ts', st'', ns')"
      using prod_cases3 by blast
    have "threaded T px (frame_calls k s (n + 1) ps (map fst (track_run T st' (map px ps))))"
      by (rule Cons.IH)
    then show ?thesis
      by (simp add: Cons t t')
  qed
qed

lemma threaded_Cons:
  "threaded T px (c # cs) =
     ((cs \<noteq> [] \<longrightarrow> c_tracker c = c_tracker (hd cs) \<longrightarrow>
         c_state (hd cs) = fst (snd (track_image T (c_state c) (px (c_path c))))) \<and>
      threaded T px cs)"
  by (cases cs) auto

lemma threaded_append:
  assumes "threaded T px A" "threaded T px B"
    and "A \<noteq> [] \<Longrightarrow> B \<noteq> [] \<Longrightarrow> c_tracker (last A) \<noteq> c_tracker (hd B)"
  shows "threaded T px (A @ B)"
  using assms
proof (induction A)
  case Nil
  then show ?case by simp
next
  case (Cons a A)
  have t: "threaded T px A"
    using Cons.prems(1) by (simp add: threaded_Cons)
  show ?case
  proof (cases "A = []")
    case True
    then show ?thesis
      using Cons.prems by (simp add: threaded_Cons)
  next
    case False
    then have "threaded T px (A @ B)"
      using Cons.IH t Cons.prems(2,3) by simp
    then show ?thesis
      using Cons.prems(1) False by (simp add: threaded_Cons)
  qed
qed

lemma tracker_discipline_same:
  assumes "calls w' = calls w" "pixels w' = pixels w" "trackers_made w' = trackers_made w"
  shows "tracker_discipline T w w'"
  unfolding tracker_discipline_def using assms by (intro exI [of _ "[]"]) simp

lemma tracker_discipline_trans:
  assumes "tracker_discipline T a b" "tracker_discipline T b c"
  shows "tracker_discipline T a c"
proof -
  obtain A where A: "calls b = calls a @ A" "pixels b = pixels a" "trackers_made a \<le> trackers_made b"
      "\<forall>x \<in> set A. trackers_made a \<le> c_tracker x \<and> c_tracker x < trackers_made b"
      "\<forall>x \<in> set A. \<forall>y \<in> set A. c_tracker x = c_tracker y \<longrightarrow> c_sequence x = c_sequence y"
      "\<forall>x \<in> set A. c_frame x = 0 \<longrightarrow> c_state x = MCSORT T"
      "threaded T (pixels a) A"
    using assms(1) unfolding tracker_discipline_def by blast
  obtain B where B: "calls c = calls b @ B" "pixels c = pixels b" "trackers_made b \<le> trackers_made c"
      "\<forall>x \<in> set B. trackers_made b \<le> c_tracker x \<and> c_tracker x < trackers_made c"
      "\<forall>x \<in> set B. \<forall>y \<in> set B. c_tracker x = c_tracker y \<longrightarrow> c_sequence x = c_sequence y"
      "\<forall>x \<in> set B. c_frame x = 0 \<longrightarrow> c_state x = MCSORT T"
      "threaded T (pixels b) B"
    using assms(2) unfolding tracker_discipline_def by blast
  have sep: "c_tracker x \<noteq> c_tracker y" if "x \<in> set A" "y \<in> set B" for x y
    using that A(4) B(4) by fastforce
  have "c_tracker (last A) \<noteq> c_tracker (hd B)" if "A \<noteq> []" "B \<noteq> []"
    using that sep [of "last A" "hd B"] by simp
  then have t: "threaded T (pixels a) (A @ B)"
    using A(7) B(7) A(2) by (simp add: threaded_append)
  have 1: "calls c = calls a @ (A @ B)" using A(1) B(1) by simp
  have 2: "pixels c = pixels a" using A(2) B(2) by simp
  have 3: "trackers_made a \<le> trackers_made c" using A(3) B(3) by simp
  have 4: "\<forall>x \<in> set (A @ B). trackers_made a \<le> c_tracker x \<and> c_tracker x < trackers_made c"
    using A(3,4) B(3,4) by fastforce
  have 5: "\<forall>x \<in> set (A @ B). \<forall>y \<in> set (A @ B). c_tracker x = c_tracker y \<longrightarrow> c_sequence x = c_sequence y"
    using A(5) B(5) sep by (metis Un_iff set_append)
  have 6: "\<forall>x \<in> set (A @ B). c_frame x = 0 \<longrightarrow> c_state x = MCSORT T"
    using A(6) B(6) by auto
  show ?thesis
    unfolding tracker_discipline_def using 1 2 3 4 5 6 t by blast
qed

lemma tracker_discipline_detectAndTrack:
  "tracker_discipline T w (final_world (detectAndTrack T s m w))"
proof -
  let ?w' = "final_world (detectAndTrack T s m w)"
  let ?L = "frame_calls (trackers_made w) s 0 (imagePaths w s)
         (map fst (track_run T (MCSORT T) (map (pixels w) (imagePaths w s))))"
  have px: "pixels ?w' = pixels w"
    using detectAndTrack_effect [of T s m w] by simp
  consider "calls ?w' = calls w" "trackers_made ?w' = trackers_made w"
    | "calls ?w' = calls w @ ?L" "trackers_made ?w' = Suc (trackers_made w)"
    using detectAndTrack_effect [of T s m w] by blast
  then show ?thesis
  proof cases
    case 1
    then show ?thesis using px by (simp add: tracker_discipline_same)
  next
    case 2
    have a: "\<forall>c \<in> set ?L. c_tracker c = trackers_made w \<and> c_sequence c = s"
      using frame_calls_tracker by blast
    have b: "\<forall>c \<in> set ?L. c_frame c = 0 \<longrightarrow> c_state c = MCSORT T"
    proof (intro ballI impI)
      fix c
      assume "c \<in> set ?L" "c_frame c = 0"
      then show "c_state c = MCSORT T" by (rule frame_calls_first_state)
    qed
    have c: "threaded T (pixels w) ?L"
      by (rule threaded_frame_calls)
    show ?thesis
      unfolding tracker_discipline_def
      using 2 px a b c by (intro exI [of _ ?L]) simp
  qed
qed

lemma tracker_discipline_sequences_loop:
  "tracker_discipline T w (final_world (sequences_loop T m ls w cum n))"
proof (induction ls arbitrary: w cum n)
  case Nil
  show ?case by (simp add: final_world_def tracker_discipline_same)
next
  case (Cons l rest)
  let ?w1 = "w\<lparr>stdout := stdout w @ [Sequence l]\<rparr>"
  have s1: "tracker_discipline T w ?w1"
    by (simp add: tracker_discipline_same)
  have s2: "tracker_discipline T ?w1 (final_world (detectAndTrack T l m ?w1))"
    by (rule tracker_discipline_detectAndTrack)
  show ?case
  proof (cases "detectAndTrack T l m ?w1")
    case (Inl e)
    then have "final_world (sequences_loop T m (l # rest) w cum n) = final_world (detectAndTrack T l m ?w1)"
      by (simp add: Let_def)
    then show ?thesis using s1 s2 tracker_discipline_trans by metis
  next
    case (Inr r)
    obtain dfc w2 where r: "r = (dfc, w2)" by (cases r) auto
    let ?w3 = "w2\<lparr>stdout := stdout w2 @
      [Duration (duration_cast_ms (fst dfc)) (throughput (snd dfc) (duration_cast_ms (fst dfc)))]\<rparr>"
    have "final_world (detectAndTrack T l m ?w1) = w2"
      by (simp add: Inr r final_world_def)
    then have "tracker_discipline T w w2"
      using s1 s2 tracker_discipline_trans by metis
    moreover have "tracker_discipline T w2 ?w3"
      by (simp add: tracker_discipline_same)
    moreover have "tracker_discipline T ?w3
        (final_world (sequences_loop T m rest ?w3 (double_add cum (fst dfc)) (n + snd dfc)))"
      by (rule Cons.IH)
    moreover have "sequences_loop T m (l # rest) w cum n =
        sequences_loop T m rest ?w3 (double_add cum (fst dfc)) (n + snd dfc)"
      by (simp add: Inr r Let_def)
    ultimately show ?thesis
      using tracker_discipline_trans by metis
  qed
qed

section \<open>The example worlds\<close>

lemma world0_paths:
  "inputDirPath world0 ''seq01'' = [''..'', ''data'', ''seq01'', ''images'']"
  "outputDirPath world0 ''seq01'' ''m'' = [''..'', ''data'', ''results'', ''seq01'', ''m'']"
  "outputPath world0 ''seq01'' ''m'' = [''..'', ''data'', ''results'', ''seq01'', ''m'', ''track.txt'']"
  by (simp_all add: inputDirPath_def outputDirPath_def outputPath_def dataDirPath_def world0_def)

lemma world0_ready:
  "is_directory world0 (inputDirPath world0 ''seq01'')"
  "is_directory world0 (outputDirPath world0 ''seq01'' ''m'') \<or> creatable world0 (outputDirPath world0 ''seq01'' ''m'')"
  "\<not> path_exists world0 (outputPath world0 ''seq01'' ''m'')"
  "openable world0 (outputPath world0 ''seq01'' ''m'')"
  unfolding world0_paths by (simp_all add: is_directory_def path_exists_def world0_def)

lemma world0_imagePaths:
  "imagePaths world0 ''seq01'' =
     [[''..'', ''data'', ''seq01'', ''images'', ''a.jpg''], [''..'', ''data'', ''seq01'', ''images'', ''b.jpg'']]"
  by (simp add: imagePaths_def inputDirPath_def dataDirPath_def world0_def less_char_def less_eq_char_def)

lemma world0_track_run:
  "track_run tracker0 (MCSORT tracker0) (map (pixels world0) (imagePaths world0 ''seq01'')) =
     [(0, [\<lparr>label = ''a.jpg'', ID = 0, bb = \<lparr>x1 = 10, y1 = 20, width = 30, height = 40\<rparr>\<rparr>], 2000000),
      (1, [\<lparr>label = ''b.jpg'', ID = 1, bb = \<lparr>x1 = 10, y1 = 20, width = 30, height = 40\<rparr>\<rparr>], 2000000)]"
  unfolding world0_imagePaths by (simp add: tracker0_def world0_def)

lemma world0_rows:
  "frame_rows 0 [\<lparr>label = ''a.jpg'', ID = 0, bb = \<lparr>x1 = 10, y1 = 20, width = 30, height = 40\<rparr>\<rparr>] @
   frame_rows 1 [\<lparr>label = ''b.jpg'', ID = 1, bb = \<lparr>x1 = 10, y1 = 20, width = 30, height = 40\<rparr>\<rparr>] =
   ''0,a.jpg,0,10,20,30,40,1,-1,-1,-1'' @ [newline] @ ''1,b.jpg,1,10,20,30,40,1,-1,-1,-1'' @ [newline]"
  by code_simp

lemma world0_double_sum: "double_sum [2000000, 2000000] = 4"
  by code_simp

lemma world1_ready:
  "is_directory world1 (inputDirPath world1 ''seq01'')"
  "is_directory world1 (outputDirPath world1 ''seq01'' ''m'') \<or> creatable world1 (outputDirPath world1 ''seq01'' ''m'')"
  "path_exists world1 (outputPath world1 ''seq01'' ''m'')"
  by (simp_all add: is_directory_def path_exists_def world1_def world0_def
      inputDirPath_def outputDirPath_def outputPath_def dataDirPath_def)

lemma world2_calls:
  "map (\<lambda>c. (c_tracker c, c_sequence c, c_frame c, c_state c))
     (calls (final_world (sequences_loop tracker0 ''m'' [''seq01'', ''seq02''] world2 0 0))) =
   [(0, ''seq01'', 0, 0), (0, ''seq01'', 1, 1), (1, ''seq02'', 0, 0)]"
  by code_simp

lemma world4_returns:
  "(case main tracker0 ''m'' ''blank.txt'' 0 world4 of Inl e \<Rightarrow> False | Inr w' \<Rightarrow> True)"
  by code_simp

lemma world_ten_ready:
  "is_directory world_ten (inputDirPath world_ten ''seq01'')"
  "is_directory world_ten (outputDirPath world_ten ''seq01'' ''m'') \<or>
   creatable world_ten (outputDirPath world_ten ''seq01'' ''m'')"
  "\<not> path_exists world_ten (outputPath world_ten ''seq01'' ''m'')"
  "openable world_ten (outputPath world_ten ''seq01'' ''m'')"
  by (simp_all add: is_directory_def path_exists_def world_ten_def world0_def
      inputDirPath_def outputDirPath_def outputPath_def dataDirPath_def)

lemma world_ten_imagePaths:
  "imagePaths world_ten ''seq01'' =
     map (\<lambda>e. [''..'', ''data'', ''seq01'', ''images'', e])
       [''0.jpg'', ''1.jpg'', ''2.jpg'', ''3.jpg'', ''4.jpg'',
        ''5.jpg'', ''6.jpg'', ''7.jpg'', ''8.jpg'', ''9.jpg'']"
proof -
  have "sorted (map (\<lambda>e. [''..'', ''data'', ''seq01'', ''images'', e])
       [''0.jpg'', ''1.jpg'', ''2.jpg'', ''3.jpg'', ''4.jpg'',
        ''5.jpg'', ''6.jpg'', ''7.jpg'', ''8.jpg'', ''9.jpg''])"
    by (simp add: less_char_def less_eq_char_def)
  then have "sort (map (\<lambda>e. [''..'', ''data'', ''seq01'', ''images'', e])
       [''0.jpg'', ''1.jpg'', ''2.jpg'', ''3.jpg'', ''4.jpg'',
        ''5.jpg'', ''6.jpg'', ''7.jpg'', ''8.jpg'', ''9.jpg'']) =
      map (\<lambda>e. [''..'', ''data'', ''seq01'', ''images'', e])
       [''0.jpg'', ''1.jpg'', ''2.jpg'', ''3.jpg'', ''4.jpg'',
        ''5.jpg'', ''6.jpg'', ''7.jpg'', ''8.jpg'', ''9.jpg'']"
    by (rule sort_key_id_if_sorted [where f = "\<lambda>x. x", simplified])
  then show ?thesis
    by (simp add: imagePaths_def inputDirPath_def dataDirPath_def world_ten_def world0_def)
qed

lemma world_ten_times:
  "map (snd \<circ> snd) (track_run tracker_tenth (MCSORT tracker_tenth)
      (map (pixels world_ten) (imagePaths world_ten ''seq01''))) = replicate 10 100000"
  unfolding world_ten_imagePaths by (simp add: tracker_tenth_def numeral_eq_Suc)

lemma tenth: "ms_of_ns 100000 = 3602879701896397 / 36028797018963968"
  by code_simp

lemma sum_tenths:
  "foldl double_add 0 (replicate 10 (3602879701896397 / 36028797018963968)) = 1 - 1 / 2 ^ 53"
  by code_simp

lemma ten_tenths: "double_sum (replicate 10 100000) = 1 - 1 / 2 ^ 53"
proof -
  have "double_sum (replicate 10 100000) = foldl double_add 0 (map ms_of_ns (replicate 10 100000))"
    unfolding double_sum_def by (simp only: foldl_map)
  also have "\<dots> = foldl double_add 0 (replicate 10 (ms_of_ns 100000))"
    by (simp only: map_replicate)
  finally show ?thesis
    unfolding tenth sum_tenths .
qed

section \<open>The rows of the artifact\<close>




section \<open>Frames, rows and order\<close>

text \<open>
  C2: when the images directory exists, the artifact does not exist yet and the stream
  opens, the frames are the entries of the images directory in lexicographic path order
  (the sorted permutation of the entries), the tracker is called on them in that order
  with \<^verbatim>\<open>frameCount\<close> running over 0, 1, ..., the returned frame count is the number
  of entries, and the artifact is the concatenation, frame after frame, of the rows of
  each frame, the rows of frame \<open>i\<close> all written with frame index \<open>i\<close>.
\<close>

theorem frames_in_path_order:
  assumes "is_directory w (inputDirPath w s)"
    and "is_directory w (outputDirPath w s m) \<or> creatable w (outputDirPath w s m)"
    and "\<not> path_exists w (outputPath w s m)"
    and "openable w (outputPath w s m)"
  shows "\<exists>d w'. detectAndTrack T s m w = Inr ((d, int (length (entries w (inputDirPath w s)))), w') \<and>
     sorted (imagePaths w s) \<and>
     mset (imagePaths w s) = mset (map (\<lambda>e. inputDirPath w s @ [e]) (entries w (inputDirPath w s))) \<and>
     map c_path (drop (length (calls w)) (calls w')) = imagePaths w s \<and>
     map c_frame (drop (length (calls w)) (calls w')) = map int [0..<length (imagePaths w s)] \<and>
     files w' (outputPath w s m) =
       Some (concat (map (\<lambda>i. frame_rows (int i)
                (fst (snd (track_run T (MCSORT T) (map (pixels w) (imagePaths w s)) ! i))))
              [0..<length (imagePaths w s)]))"
proof -
  let ?ps = "imagePaths w s"
  let ?R = "track_run T (MCSORT T) (map (pixels w) ?ps)"
  let ?L = "frames_loop T (trackers_made w) s ?ps (prepared w s m) (MCSORT T) 0 0 []"
  obtain w4 d n buf where L: "?L = (w4, d, n, buf)"
    by (cases ?L) auto
  have run: "detectAndTrack T s m w =
      Inr ((d, n), w4\<lparr>files := (files w4)(outputPath w s m \<mapsto> buf),
                      fs_calls := fs_calls w4 @ [CLOSE (outputPath w s m)]\<rparr>)"
    using detectAndTrack_run [OF assms, of T] L by simp
  have len: "length ?ps = length (entries w (inputDirPath w s))"
    by (simp add: imagePaths_def)
  have n: "n = int (length (entries w (inputDirPath w s)))"
    using frames_loop_frameCount [of T "trackers_made w" s ?ps "prepared w s m" "MCSORT T" 0 0 "[]"] L len
    by simp
  have c: "calls w4 = calls w @ frame_calls (trackers_made w) s 0 ?ps (map fst ?R)"
    using frames_loop_calls [of T "trackers_made w" s ?ps "prepared w s m" "MCSORT T" 0 0 "[]"] L
    by (simp add: prepared_fields)
  have b: "buf = concat (frame_groups 0 (map (fst \<circ> snd) ?R))"
    using frames_loop_buf [of T "trackers_made w" s ?ps "prepared w s m" "MCSORT T" 0 0 "[]"] L
    by (simp add: prepared_fields)
  have b': "buf = concat (map (\<lambda>i. frame_rows (int i) (fst (snd (?R ! i)))) [0..<length ?ps])"
    unfolding b frame_groups_map_nth by (simp add: length_track_run)
  have "sorted ?ps" "mset ?ps = mset (map (\<lambda>e. inputDirPath w s @ [e]) (entries w (inputDirPath w s)))"
    by (simp_all add: imagePaths_def)
  moreover have "map c_path (drop (length (calls w)) (calls w4)) = ?ps"
    by (simp add: c frame_calls_path length_track_run)
  moreover have "map c_frame (drop (length (calls w)) (calls w4)) = map int [0..<length ?ps]"
    by (simp add: c frame_calls_frame length_track_run)
  ultimately show ?thesis
    using run n b' by simp
qed

theorem frames_in_path_order_witness:
  "\<exists>d w'. detectAndTrack tracker0 ''seq01'' ''m'' world0 = Inr ((d, 2), w') \<and>
     map c_path (calls w') =
       [[''..'', ''data'', ''seq01'', ''images'', ''a.jpg''], [''..'', ''data'', ''seq01'', ''images'', ''b.jpg'']] \<and>
     map c_frame (calls w') = [0, 1] \<and>
     files w' [''..'', ''data'', ''results'', ''seq01'', ''m'', ''track.txt''] =
       Some (''0,a.jpg,0,10,20,30,40,1,-1,-1,-1'' @ [newline] @ ''1,b.jpg,1,10,20,30,40,1,-1,-1,-1'' @ [newline])"
proof -
  have e: "int (length (entries world0 (inputDirPath world0 ''seq01''))) = 2" "length (calls world0) = 0"
    unfolding world0_paths by (simp_all add: world0_def)
  have u: "[0..<length (imagePaths world0 ''seq01'')] = [0, Suc 0]"
    unfolding world0_imagePaths by (simp add: upt_rec)
  have t: "concat (map (\<lambda>i. frame_rows (int i)
                (fst (snd (track_run tracker0 (MCSORT tracker0)
                   (map (pixels world0) (imagePaths world0 ''seq01'')) ! i))))
              [0..<length (imagePaths world0 ''seq01'')]) =
     ''0,a.jpg,0,10,20,30,40,1,-1,-1,-1'' @ [newline] @ ''1,b.jpg,1,10,20,30,40,1,-1,-1,-1'' @ [newline]"
  proof -
    have "concat (map (\<lambda>i. frame_rows (int i)
                (fst (snd (track_run tracker0 (MCSORT tracker0)
                   (map (pixels world0) (imagePaths world0 ''seq01'')) ! i)))) [0, Suc 0]) =
       frame_rows 0 [\<lparr>label = ''a.jpg'', ID = 0, bb = \<lparr>x1 = 10, y1 = 20, width = 30, height = 40\<rparr>\<rparr>] @
       frame_rows 1 [\<lparr>label = ''b.jpg'', ID = 1, bb = \<lparr>x1 = 10, y1 = 20, width = 30, height = 40\<rparr>\<rparr>]"
      unfolding world0_track_run by simp
    then show ?thesis unfolding u world0_rows .
  qed
  from frames_in_path_order [OF world0_ready, of tracker0]
  obtain d w' where r: "detectAndTrack tracker0 ''seq01'' ''m'' world0 =
        Inr ((d, int (length (entries world0 (inputDirPath world0 ''seq01'')))), w')"
    and cp: "map c_path (drop (length (calls world0)) (calls w')) = imagePaths world0 ''seq01''"
    and cf: "map c_frame (drop (length (calls world0)) (calls w')) =
        map int [0..<length (imagePaths world0 ''seq01'')]"
    and f: "files w' (outputPath world0 ''seq01'' ''m'') =
       Some (concat (map (\<lambda>i. frame_rows (int i)
                (fst (snd (track_run tracker0 (MCSORT tracker0)
                   (map (pixels world0) (imagePaths world0 ''seq01'')) ! i))))
              [0..<length (imagePaths world0 ''seq01'')]))"
    by blast
  have k1: "detectAndTrack tracker0 ''seq01'' ''m'' world0 = Inr ((d, 2), w')"
    using r unfolding e .
  have k2: "map c_path (calls w') =
       [[''..'', ''data'', ''seq01'', ''images'', ''a.jpg''], [''..'', ''data'', ''seq01'', ''images'', ''b.jpg'']]"
    using cp unfolding e world0_imagePaths by simp
  have k3: "map c_frame (calls w') = [0, 1]"
    using cf unfolding e u by simp
  have k4: "files w' [''..'', ''data'', ''results'', ''seq01'', ''m'', ''track.txt''] =
       Some (''0,a.jpg,0,10,20,30,40,1,-1,-1,-1'' @ [newline] @ ''1,b.jpg,1,10,20,30,40,1,-1,-1,-1'' @ [newline])"
    using f unfolding t world0_paths .
  show ?thesis
    by (rule exI [of _ d], rule exI [of _ w']) (simp only: k1 k2 k3 k4 simp_thms)
qed

section \<open>An artifact that is already there\<close>

text \<open>
  C3: when the images directory exists and the artifact exists when the function looks
  for it (its directory being there or creatable), \<^verbatim>\<open>detectAndTrack\<close> returns zero
  duration and zero frames, every file keeps its contents, no tracker is constructed and
  no call is logged; the batch loop goes on to the next sequence with its totals
  unchanged.
\<close>

theorem existing_artifact_skipped:
  assumes "is_directory w (inputDirPath w s)"
    and "is_directory w (outputDirPath w s m) \<or> creatable w (outputDirPath w s m)"
    and "path_exists w (outputPath w s m)"
  shows "\<exists>w' w''. detectAndTrack T s m w = Inr ((0, 0), w') \<and>
      files w' = files w \<and> calls w' = calls w \<and> trackers_made w' = trackers_made w \<and>
      sequences_loop T m (s # rest) w cum n = sequences_loop T m rest w'' cum n \<and>
      files w'' = files w \<and> calls w'' = calls w \<and> trackers_made w'' = trackers_made w"
proof -
  let ?w1 = "w\<lparr>stdout := stdout w @ [Sequence s]\<rparr>"
  let ?skip = "\<lambda>w. (looked w s m)\<lparr>stderr := stderr w @ [FILE_EXISTS_MESSAGE (outputPath w s m)]\<rparr>"
  have a: "detectAndTrack T s m w = Inr ((0, 0), ?skip w)"
    using assms by (rule detectAndTrack_skip)
  have h: "is_directory ?w1 (inputDirPath ?w1 s)"
      "is_directory ?w1 (outputDirPath ?w1 s m) \<or> creatable ?w1 (outputDirPath ?w1 s m)"
      "path_exists ?w1 (outputPath ?w1 s m)"
    using assms by (simp_all add: stdout_paths)
  have b: "detectAndTrack T s m ?w1 = Inr ((0, 0), ?skip ?w1)"
    using h by (rule detectAndTrack_skip)
  let ?w'' = "(?skip ?w1)\<lparr>stdout := stdout (?skip ?w1) @ [Duration 0 (throughput 0 0)]\<rparr>"
  have c: "sequences_loop T m (s # rest) w cum n = sequences_loop T m rest ?w'' cum n"
    by (simp add: b Let_def duration_cast_ms_def double_add_def)
  have d: "files (?skip w) = files w" "calls (?skip w) = calls w"
      "trackers_made (?skip w) = trackers_made w"
    by (simp_all add: looked_def)
  have e: "files ?w'' = files w" "calls ?w'' = calls w" "trackers_made ?w'' = trackers_made w"
    by (simp_all add: looked_def)
  show ?thesis
    using a c d e by blast
qed

theorem existing_artifact_skipped_witness:
  "\<exists>w' w''. detectAndTrack tracker0 ''seq01'' ''m'' world1 = Inr ((0, 0), w') \<and>
      files w' = files world1 \<and> calls w' = calls world1 \<and>
      trackers_made w' = trackers_made world1 \<and>
      sequences_loop tracker0 ''m'' [''seq01''] world1 3 7 = Inr ((3, 7), w'') \<and>
      files w'' = files world1 \<and> calls w'' = calls world1 \<and>
      trackers_made w'' = trackers_made world1"
  using existing_artifact_skipped [OF world1_ready, of tracker0 "[]" 3 7] by simp

section \<open>The throughput figure\<close>

text \<open>
  C4: when a sequence returns with no frames, or with a duration that truncates to zero
  milliseconds, the batch loop prints a duration of 0 and a throughput that is a NaN or
  an infinity (a NaN when there are no frames), and goes on with the next sequence: the
  division is a floating-point division, which does not trap.
\<close>

theorem throughput_without_division_error:
  assumes "detectAndTrack T s m (w\<lparr>stdout := stdout w @ [Sequence s]\<rparr>) = Inr ((d, k), w2)"
    and "k = 0 \<or> duration_cast_ms d = 0"
  shows "sequences_loop T m (s # rest) w cum n =
       sequences_loop T m rest (w2\<lparr>stdout := stdout w2 @ [Duration 0 (throughput k 0)]\<rparr>) (double_add cum d) (n + k) \<and>
     sentinel (throughput k 0) \<and> (k = 0 \<longrightarrow> throughput k 0 = NaN)"
proof -
  have z: "duration_cast_ms d = 0"
  proof (cases "k = 0")
    case True
    then have "d = 0" using assms(1) detectAndTrack_zero_frames by blast
    then show ?thesis by (simp add: duration_cast_ms_def)
  next
    case False
    then show ?thesis using assms(2) by simp
  qed
  show ?thesis
    by (simp add: assms(1) z Let_def sentinel_throughput throughput_zero)
qed

theorem throughput_without_division_error_witness:
  "\<exists>w''. sequences_loop tracker0 ''m'' [''seq01''] world1 0 0 = Inr ((0, 0), w'') \<and>
      stdout w'' = [Sequence ''seq01'', Duration 0 NaN]"
proof -
  let ?w1 = "world1\<lparr>stdout := stdout world1 @ [Sequence ''seq01'']\<rparr>"
  let ?w2 = "(looked ?w1 ''seq01'' ''m'')
               \<lparr>stderr := stderr ?w1 @ [FILE_EXISTS_MESSAGE (outputPath ?w1 ''seq01'' ''m'')]\<rparr>"
  have h: "is_directory ?w1 (inputDirPath ?w1 ''seq01'')"
      "is_directory ?w1 (outputDirPath ?w1 ''seq01'' ''m'') \<or> creatable ?w1 (outputDirPath ?w1 ''seq01'' ''m'')"
      "path_exists ?w1 (outputPath ?w1 ''seq01'' ''m'')"
    using world1_ready by (simp_all add: stdout_paths)
  have d: "detectAndTrack tracker0 ''seq01'' ''m'' ?w1 = Inr ((0, 0), ?w2)"
    using h by (rule detectAndTrack_skip)
  have z: "(0::int) = 0 \<or> duration_cast_ms 0 = 0" by simp
  have s: "stdout ?w2 = [Sequence ''seq01'']"
    by (simp add: looked_def world1_def world0_def)
  from throughput_without_division_error [OF d z, of "[]" 0 0]
  have "sequences_loop tracker0 ''m'' [''seq01''] world1 0 0 =
      Inr ((0, 0), ?w2\<lparr>stdout := stdout ?w2 @ [Duration 0 NaN]\<rparr>)"
    by (simp add: double_add_def)
  moreover have "stdout (?w2\<lparr>stdout := stdout ?w2 @ [Duration 0 NaN]\<rparr>) =
      [Sequence ''seq01'', Duration 0 NaN]"
    using s by simp
  ultimately show ?thesis by (intro exI conjI)
qed

section \<open>The batch totals\<close>

text \<open>
  C5, on the code: the running total of line 147 is never given an initial value, so the
  total printed is the sum of the durations plus whatever the variable held. With 5
  milliseconds in it, a batch of one sequence of two frames tracked in 2 milliseconds
  each reports 9 milliseconds and the double nearest to 2000 / 9 frames per second,
  where the sum of the durations is 4 milliseconds and the rate 500.
\<close>

theorem total_duration_starts_indeterminate:
  "(case main tracker0 ''m'' ''seqs.txt'' 5 world0 of Inl e \<Rightarrow> [] | Inr w' \<Rightarrow> stdout w') =
     [Sequence ''seq01'', Duration 4 (Fin 500), TotalDuration 9 (Fin (to_double (2000 / 9)))]"
  by code_simp

section \<open>A missing images directory\<close>

text \<open>
  C6: when the sequences before it have been processed and the images directory of a
  sequence does not exist, \<^verbatim>\<open>main\<close> ends with \<^verbatim>\<open>EXIT_FAILURE\<close>; the world it leaves
  is the world the earlier sequences left, with the sequence announced, the directory
  looked for and the directory message printed: nothing is created for the sequence and
  no later sequence is touched.
\<close>

theorem missing_images_directory_aborts:
  assumes "files w (dataDirPath w @ [''config'', f]) = Some content"
    and "getlines content = pre @ s # rest"
    and "sequences_loop T m pre w g 0 = Inr ((cum', n'), w')"
    and "\<not> is_directory w' (inputDirPath w' s)"
  shows "main T m f g w =
     Inl (EXIT_FAILURE, w'\<lparr>stdout := stdout w' @ [Sequence s],
                           fs_calls := fs_calls w' @ [IS_DIRECTORY (inputDirPath w' s)],
                           stderr := stderr w' @ [OPEN_DIR_MESSAGE s]\<rparr>)"
proof -
  let ?w1 = "w'\<lparr>stdout := stdout w' @ [Sequence s]\<rparr>"
  let ?w2 = "?w1\<lparr>fs_calls := fs_calls ?w1 @ [IS_DIRECTORY (inputDirPath ?w1 s)],
                  stderr := stderr ?w1 @ [OPEN_DIR_MESSAGE s]\<rparr>"
  have "\<not> is_directory ?w1 (inputDirPath ?w1 s)"
    using assms(4) by (simp add: stdout_paths)
  then have "detectAndTrack T s m ?w1 = Inl (EXIT_FAILURE, ?w2)"
    by (rule detectAndTrack_no_directory)
  then have "sequences_loop T m (s # rest) w' cum' n' = Inl (EXIT_FAILURE, ?w2)"
    by (simp add: Let_def)
  then have "sequences_loop T m (pre @ s # rest) w g 0 = Inl (EXIT_FAILURE, ?w2)"
    by (simp add: sequences_loop_append assms(3))
  then show ?thesis
    by (simp add: main_def assms(1,2) stdout_paths)
qed

theorem missing_images_directory_aborts_witness:
  "main tracker0 ''m'' ''batch.txt'' 0 world3 =
     Inl (EXIT_FAILURE, world3\<lparr>stdout := stdout world3 @ [Sequence ''nodir''],
            fs_calls := fs_calls world3 @ [IS_DIRECTORY (inputDirPath world3 ''nodir'')],
            stderr := stderr world3 @ [OPEN_DIR_MESSAGE ''nodir'']\<rparr>)"
proof -
  have a: "files world3 (dataDirPath world3 @ [''config'', ''batch.txt'']) =
      Some (''nodir'' @ [newline] @ ''seq01'' @ [newline])"
    by (simp add: world3_def world0_def dataDirPath_def)
  have b: "getlines (''nodir'' @ [newline] @ ''seq01'' @ [newline]) = [] @ ''nodir'' # [''seq01'']"
    by (simp add: getlines_def newline_def)
  have c: "sequences_loop tracker0 ''m'' [] world3 0 0 = Inr ((0, 0), world3)"
    by simp
  have d: "\<not> is_directory world3 (inputDirPath world3 ''nodir'')"
    by (simp add: is_directory_def inputDirPath_def dataDirPath_def world3_def world0_def)
  show ?thesis
    using a b c d by (rule missing_images_directory_aborts)
qed

section \<open>One tracker per sequence\<close>

text \<open>
  C7: in a world whose log only names MCSORT objects already constructed, whatever a
  batch does, the calls it adds to the log are such that calls for different sequences
  are made on different MCSORT objects, none of them an object used before the batch;
  the call for frame 0 finds the state of a newly constructed tracker; and a call on the
  same object as the call before finds the state that call left.
\<close>

theorem tracker_never_shared:
  assumes "\<forall>c \<in> set (calls w). c_tracker c < trackers_made w"
    and "w' = final_world (sequences_loop T m ls w cum n)"
    and "new = drop (length (calls w)) (calls w')"
  shows "calls w' = calls w @ new \<and>
     (\<forall>c \<in> set new. \<forall>c' \<in> set new. c_sequence c \<noteq> c_sequence c' \<longrightarrow> c_tracker c \<noteq> c_tracker c') \<and>
     (\<forall>c \<in> set new. \<forall>c' \<in> set (calls w). c_tracker c \<noteq> c_tracker c') \<and>
     (\<forall>c \<in> set new. c_frame c = 0 \<longrightarrow> c_state c = MCSORT T) \<and>
     threaded T (pixels w) new"
proof -
  have "tracker_discipline T w w'"
    unfolding assms(2) by (rule tracker_discipline_sequences_loop)
  then obtain L where L: "calls w' = calls w @ L"
      "\<forall>x \<in> set L. trackers_made w \<le> c_tracker x \<and> c_tracker x < trackers_made w'"
      "\<forall>x \<in> set L. \<forall>y \<in> set L. c_tracker x = c_tracker y \<longrightarrow> c_sequence x = c_sequence y"
      "\<forall>x \<in> set L. c_frame x = 0 \<longrightarrow> c_state x = MCSORT T"
      "threaded T (pixels w) L"
    unfolding tracker_discipline_def by blast
  have n: "new = L" using L(1) assms(3) by simp
  have "\<forall>c \<in> set L. \<forall>c' \<in> set (calls w). c_tracker c \<noteq> c_tracker c'"
    using L(2) assms(1) by fastforce
  moreover have "\<forall>c \<in> set L. \<forall>c' \<in> set L. c_sequence c \<noteq> c_sequence c' \<longrightarrow> c_tracker c \<noteq> c_tracker c'"
    using L(3) by blast
  ultimately show ?thesis
    unfolding n using L(1,4,5) by blast
qed

theorem tracker_never_shared_witness:
  "map (\<lambda>c. (c_tracker c, c_sequence c, c_frame c, c_state c))
     (calls (final_world (sequences_loop tracker0 ''m'' [''seq01'', ''seq02''] world2 0 0))) =
     [(0, ''seq01'', 0, 0), (0, ''seq01'', 1, 1), (1, ''seq02'', 0, 0)] \<and>
   threaded tracker0 (pixels world2)
     (calls (final_world (sequences_loop tracker0 ''m'' [''seq01'', ''seq02''] world2 0 0)))"
proof -
  have e: "calls world2 = []"
    by (simp add: world2_def world0_def)
  have a: "\<forall>c \<in> set (calls world2). c_tracker c < trackers_made world2"
    by (simp add: e)
  have "threaded tracker0 (pixels world2)
      (drop (length (calls world2))
        (calls (final_world (sequences_loop tracker0 ''m'' [''seq01'', ''seq02''] world2 0 0))))"
    using tracker_never_shared [OF a refl refl, of tracker0 "''m''" "[''seq01'', ''seq02'']" 0 0]
    by blast
  then show ?thesis
    using world2_calls by (simp add: e)
qed

section \<open>The measured intervals\<close>

text \<open>
  C8, as the spec states it: the accumulated duration is the sum over the frames of the
  time the call of the tracker takes. The accumulator is a \<^verbatim>\<open>double\<close>: for ten frames
  of a tenth of a millisecond each the times add up to one millisecond, and the function
  returns the double just below one.
\<close>

theorem exact_sum_counterexample:
  "(case detectAndTrack tracker_tenth ''seq01'' ''m'' world_ten of
      Inl e \<Rightarrow> None
    | Inr ((d, n), w') \<Rightarrow> Some (d, n)) = Some (1 - 1 / 2 ^ 53, 10) \<and>
   (\<Sum>r \<leftarrow> track_run tracker_tenth (MCSORT tracker_tenth)
              (map (pixels world_ten) (imagePaths world_ten ''seq01'')).
       (of_int (snd (snd r)) :: rat) / 1000000) = 1"
proof -
  obtain w' where "detectAndTrack tracker_tenth ''seq01'' ''m'' world_ten =
       Inr ((double_sum (map (snd \<circ> snd)
               (track_run tracker_tenth (MCSORT tracker_tenth)
                  (map (pixels world_ten) (imagePaths world_ten ''seq01'')))),
             int (length (imagePaths world_ten ''seq01''))), w')"
    using detectAndTrack_returns [OF world_ten_ready, of tracker_tenth] by blast
  moreover have "int (length (imagePaths world_ten ''seq01'')) = 10"
    unfolding world_ten_imagePaths by simp
  ultimately have a: "detectAndTrack tracker_tenth ''seq01'' ''m'' world_ten =
       Inr ((1 - 1 / 2 ^ 53, 10), w')"
    unfolding world_ten_times ten_tenths by simp
  have "(\<Sum>r \<leftarrow> track_run tracker_tenth (MCSORT tracker_tenth)
              (map (pixels world_ten) (imagePaths world_ten ''seq01'')).
       (of_int (snd (snd r)) :: rat) / 1000000) =
      (\<Sum>ns \<leftarrow> map (snd \<circ> snd) (track_run tracker_tenth (MCSORT tracker_tenth)
              (map (pixels world_ten) (imagePaths world_ten ''seq01''))). of_int ns / 1000000)"
    by (simp add: comp_def)
  also have "\<dots> = 1"
    unfolding world_ten_times by (simp add: sum_list_replicate)
  finally show ?thesis
    using a by simp
qed

text \<open>
  C8, amended: on a clock that advances while an image is decoded, while the tracker
  runs and while the rows are written, the duration the function returns is the running
  double-precision sum, over the frames in order, of the time the call of the tracker
  takes, each time converted to milliseconds and each addition rounded: the clock has
  advanced by the decoding and writing times as well, and they are no part of the sum.
\<close>

theorem duration_is_tracker_time:
  assumes "is_directory w (inputDirPath w s)"
    and "is_directory w (outputDirPath w s m) \<or> creatable w (outputDirPath w s m)"
    and "\<not> path_exists w (outputPath w s m)"
    and "openable w (outputPath w s m)"
  shows "\<exists>n w'. detectAndTrack T s m w =
       Inr ((double_sum (map (snd \<circ> snd)
               (track_run T (MCSORT T) (map (pixels w) (imagePaths w s)))), n), w') \<and>
     now w' = now w + (\<Sum>p \<leftarrow> imagePaths w s. imread_ns w p + write_ns w p) +
              (\<Sum>r \<leftarrow> track_run T (MCSORT T) (map (pixels w) (imagePaths w s)). snd (snd r))"
proof -
  let ?L = "frames_loop T (trackers_made w) s (imagePaths w s) (prepared w s m) (MCSORT T) 0 0 []"
  obtain w4 d n buf where L: "?L = (w4, d, n, buf)"
    using prod_cases4 by blast
  have run: "detectAndTrack T s m w =
      Inr ((d, n), w4\<lparr>files := (files w4)(outputPath w s m \<mapsto> buf),
                      fs_calls := fs_calls w4 @ [CLOSE (outputPath w s m)]\<rparr>)"
    using detectAndTrack_run [OF assms, of T] L by simp
  have "d = double_sum (map (snd \<circ> snd) (track_run T (MCSORT T) (map (pixels w) (imagePaths w s))))"
    using frames_loop_duration [of T "trackers_made w" s "imagePaths w s" "prepared w s m" "MCSORT T" 0 0 "[]"] L
    by (simp add: prepared_fields double_sum_def)
  moreover have "now w4 = now w + (\<Sum>p \<leftarrow> imagePaths w s. imread_ns w p + write_ns w p) +
              (\<Sum>r \<leftarrow> track_run T (MCSORT T) (map (pixels w) (imagePaths w s)). snd (snd r))"
    using frames_loop_now [of T "trackers_made w" s "imagePaths w s" "prepared w s m" "MCSORT T" 0 0 "[]"] L
    by (simp add: prepared_fields)
  ultimately show ?thesis using run by simp
qed

theorem duration_is_tracker_time_witness:
  "\<exists>n w'. detectAndTrack tracker0 ''seq01'' ''m'' world0 = Inr ((4, n), w') \<and> now w' = 4000036"
proof -
  have a: "double_sum (map (snd \<circ> snd)
      (track_run tracker0 (MCSORT tracker0) (map (pixels world0) (imagePaths world0 ''seq01'')))) = 4"
    unfolding world0_track_run using world0_double_sum by simp
  have b1: "(\<Sum>r \<leftarrow> track_run tracker0 (MCSORT tracker0) (map (pixels world0) (imagePaths world0 ''seq01'')).
           snd (snd r)) = 4000000"
    unfolding world0_track_run by simp
  have b2: "(\<Sum>p \<leftarrow> imagePaths world0 ''seq01''. imread_ns world0 p + write_ns world0 p) = 36"
    unfolding world0_imagePaths by (simp add: world0_def)
  have b3: "now world0 = 0"
    by (simp add: world0_def)
  have b: "now world0 + (\<Sum>p \<leftarrow> imagePaths world0 ''seq01''. imread_ns world0 p + write_ns world0 p) +
      (\<Sum>r \<leftarrow> track_run tracker0 (MCSORT tracker0) (map (pixels world0) (imagePaths world0 ''seq01'')).
           snd (snd r)) = 4000036"
    unfolding b1 b2 b3 by simp
  from duration_is_tracker_time [OF world0_ready, of tracker0]
  show ?thesis unfolding a b .
qed

section \<open>The output directory\<close>

text \<open>
  C9: when the images directory exists, the calls \<^verbatim>\<open>detectAndTrack\<close> makes on the
  file system begin with the two directory checks; when the output directory is not
  there, its creation comes next, before the artifact is looked for, and, once it has
  succeeded, the directory and all its parents are directories in the world the call
  leaves, whatever the call does afterwards (skip the sequence, fail to open the
  artifact, or process the frames). When the directory is there already the artifact is
  looked for at once and no directory is added. When the creation fails the run ends
  there, before the artifact is looked for.
\<close>

theorem output_directory_created_first:
  assumes "is_directory w (inputDirPath w s)"
    and "r = detectAndTrack T s m w"
    and "w' = final_world r"
    and "new = drop (length (fs_calls w)) (fs_calls w')"
  shows "fs_calls w' = fs_calls w @ new \<and>
     (is_directory w (outputDirPath w s m) \<longrightarrow>
        take 3 new = [IS_DIRECTORY (inputDirPath w s), IS_DIRECTORY (outputDirPath w s m),
                      EXISTS (outputPath w s m)] \<and>
        dirs w' = dirs w) \<and>
     (\<not> is_directory w (outputDirPath w s m) \<and> creatable w (outputDirPath w s m) \<longrightarrow>
        take 4 new = [IS_DIRECTORY (inputDirPath w s), IS_DIRECTORY (outputDirPath w s m),
                      CREATE_DIRECTORIES (outputDirPath w s m), EXISTS (outputPath w s m)] \<and>
        dirs w' = dirs w \<union> {take n (outputDirPath w s m) |n. 0 < n \<and> n \<le> length (outputDirPath w s m)}) \<and>
     (\<not> is_directory w (outputDirPath w s m) \<and> \<not> creatable w (outputDirPath w s m) \<longrightarrow>
        r = Inl (filesystem_error, w') \<and>
        new = [IS_DIRECTORY (inputDirPath w s), IS_DIRECTORY (outputDirPath w s m),
               CREATE_DIRECTORIES (outputDirPath w s m)] \<and>
        dirs w' = dirs w)"
proof (cases "is_directory w (outputDirPath w s m) \<or> creatable w (outputDirPath w s m)")
  case False
  then show ?thesis
    unfolding assms(2,3,4)
    using detectAndTrack_not_creatable [OF assms(1), of m T]
    by (simp add: final_world_def)
next
  case True
  obtain rest where rest: "fs_calls w' = fs_calls (looked w s m) @ rest" "dirs w' = dirs (looked w s m)"
    using detectAndTrack_looked [OF assms(1) True, of T] unfolding assms(2,3) by blast
  show ?thesis
  proof (cases "is_directory w (outputDirPath w s m)")
    case dir: True
    have "fs_calls w' = fs_calls w @ [IS_DIRECTORY (inputDirPath w s),
        IS_DIRECTORY (outputDirPath w s m), EXISTS (outputPath w s m)] @ rest"
      using rest(1) dir by (simp add: looked_def)
    moreover have "dirs w' = dirs w"
      using rest(2) dir by (simp add: looked_def)
    ultimately show ?thesis
      unfolding assms(4) using dir by simp
  next
    case False
    have "fs_calls w' = fs_calls w @ [IS_DIRECTORY (inputDirPath w s),
        IS_DIRECTORY (outputDirPath w s m), CREATE_DIRECTORIES (outputDirPath w s m),
        EXISTS (outputPath w s m)] @ rest"
      using rest(1) False by (simp add: looked_def)
    moreover have "dirs w' = dirs w \<union>
        {take n (outputDirPath w s m) |n. 0 < n \<and> n \<le> length (outputDirPath w s m)}"
      unfolding rest(2) using False by (rule dirs_looked)
    ultimately show ?thesis
      unfolding assms(4) using False True by simp
  qed
qed

theorem output_directory_created_first_witness:
  "\<not> is_directory world0 [''..'', ''data'', ''results'', ''seq01'', ''m''] \<and>
   take 4 (fs_calls (final_world (detectAndTrack tracker0 ''seq01'' ''m'' world0))) =
     [IS_DIRECTORY [''..'', ''data'', ''seq01'', ''images''],
      IS_DIRECTORY [''..'', ''data'', ''results'', ''seq01'', ''m''],
      CREATE_DIRECTORIES [''..'', ''data'', ''results'', ''seq01'', ''m''],
      EXISTS [''..'', ''data'', ''results'', ''seq01'', ''m'', ''track.txt'']] \<and>
   is_directory (final_world (detectAndTrack tracker0 ''seq01'' ''m'' world0))
     [''..'', ''data'', ''results''] \<and>
   is_directory (final_world (detectAndTrack tracker0 ''seq01'' ''m'' world0))
     [''..'', ''data'', ''results'', ''seq01''] \<and>
   is_directory (final_world (detectAndTrack tracker0 ''seq01'' ''m'' world0))
     [''..'', ''data'', ''results'', ''seq01'', ''m'']"
proof -
  let ?w' = "final_world (detectAndTrack tracker0 ''seq01'' ''m'' world0)"
  let ?out = "[''..'', ''data'', ''results'', ''seq01'', ''m'']"
  have n: "\<not> is_directory world0 ?out" "creatable world0 ?out" "fs_calls world0 = []"
    by (simp_all add: is_directory_def world0_def)
  from output_directory_created_first [OF world0_ready(1) refl refl refl, where T = tracker0 and m = "''m''"]
  have t: "take 4 (fs_calls ?w') =
     [IS_DIRECTORY [''..'', ''data'', ''seq01'', ''images''], IS_DIRECTORY ?out,
      CREATE_DIRECTORIES ?out, EXISTS [''..'', ''data'', ''results'', ''seq01'', ''m'', ''track.txt'']]"
    and d: "dirs ?w' = dirs world0 \<union> {take k ?out |k. 0 < k \<and> k \<le> length ?out}"
    unfolding world0_paths using n by simp_all
  have m: "take k ?out \<in> dirs ?w'" if "0 < k" "k \<le> length ?out" for k
    unfolding d using that by blast
  have "take 3 ?out \<in> dirs ?w'" "take 4 ?out \<in> dirs ?w'" "take 5 ?out \<in> dirs ?w'"
    by (rule m; simp)+
  then show ?thesis
    using n(1) t by (simp add: is_directory_def)
qed

section \<open>The lines of the sequences file\<close>

text \<open>
  C10: when \<^verbatim>\<open>main\<close> returns, the sequences it announced are the lines of the
  sequences file, all of them, in order and unchanged; for every line, blank or not, the
  directory made of the data directory, the line and \<^verbatim>\<open>images\<close> is a directory, and so
  is the output directory of the line; and a line is the text up to the line feed,
  whatever it contains.
\<close>

theorem every_line_is_a_sequence:
  assumes "files w (dataDirPath w @ [''config'', f]) = Some content"
    and "main T m f g w = Inr w'"
  shows "sequences_printed (stdout w') = sequences_printed (stdout w) @ getlines content \<and>
    (\<forall>l \<in> set (getlines content).
        is_directory w' (dataDirPath w @ [l, ''images'']) \<and>
        is_directory w' (dataDirPath w @ [''results'', l, m])) \<and>
    (\<forall>l rest. newline \<notin> set l \<longrightarrow> getlines (l @ newline # rest) = l # getlines rest)"
proof -
  obtain d k w1 where s: "sequences_loop T m (getlines content) w g 0 = Inr ((d, k), w1)"
    using assms by (auto simp: main_def Let_def split: sum.splits prod.splits)
  have w': "w' = w1\<lparr>stdout := stdout w1 @
      [TotalDuration (duration_cast_ms d) (throughput k (duration_cast_ms d))]\<rparr>"
    using assms s by (simp add: main_def Let_def)
  have "sequences_printed (stdout w') = sequences_printed (stdout w) @ getlines content"
    using sequences_loop_lines [OF s] by (simp add: w' sequences_printed_append)
  moreover have "\<forall>l \<in> set (getlines content).
        is_directory w' (dataDirPath w @ [l, ''images'']) \<and>
        is_directory w' (dataDirPath w @ [''results'', l, m])"
    using sequences_loop_lines [OF s]
    by (simp add: w' is_directory_def inputDirPath_def outputDirPath_def)
  ultimately show ?thesis
    using getlines_line by blast
qed

theorem every_line_is_a_sequence_witness:
  "\<exists>w'. main tracker0 ''m'' ''blank.txt'' 0 world4 = Inr w' \<and>
     sequences_printed (stdout w') = ['''', '' ''] \<and>
     is_directory w' [''..'', ''data'', '''', ''images''] \<and>
     is_directory w' [''..'', ''data'', ''results'', '''', ''m''] \<and>
     is_directory w' [''..'', ''data'', ''results'', '' '', ''m'']"
proof -
  obtain w' where r: "main tracker0 ''m'' ''blank.txt'' 0 world4 = Inr w'"
    using world4_returns by (cases "main tracker0 ''m'' ''blank.txt'' 0 world4") auto
  have f: "files world4 (dataDirPath world4 @ [''config'', ''blank.txt'']) = Some [newline, CHR '' '', newline]"
    by (simp add: world4_def world0_def dataDirPath_def)
  have g: "getlines [newline, CHR '' '', newline] = ['''', '' '']"
    by (simp add: getlines_def newline_def)
  have p: "dataDirPath world4 = [''..'', ''data'']" "stdout world4 = []"
    by (simp_all add: dataDirPath_def world4_def world0_def)
  from every_line_is_a_sequence [OF f r]
  have "sequences_printed (stdout w') = ['''', '' ''] \<and>
     is_directory w' [''..'', ''data'', '''', ''images''] \<and>
     is_directory w' [''..'', ''data'', ''results'', '''', ''m''] \<and>
     is_directory w' [''..'', ''data'', ''results'', '' '', ''m'']"
    unfolding g p by simp
  with r show ?thesis by (intro exI [of _ w']) simp
qed

end
